theory Spec2Isabelle
  imports Complex_Main "HOL-Library.Word"
begin

unbundle bit_operations_syntax

chapter \<open>CO-Monitor-Gateway: frame decoding, parsing, de-duplication and forwarding\<close>

text \<open>
  The development embeds the receive path of the XBee gateway scripts:
  \<^item> \<^verbatim>\<open>Part 1/rec_API_more_diag copy.py\<close>, class \<^verbatim>\<open>APIReceiver\<close>:
    \<^verbatim>\<open>_read_api_frame\<close>, \<^verbatim>\<open>_unescape_data\<close>, \<^verbatim>\<open>_process_rx_packet\<close>;
  \<^item> \<^verbatim>\<open>thingspeak_api_receiver.py\<close>: \<^verbatim>\<open>ThingSpeakClient\<close> (\<^verbatim>\<open>__init__\<close>, \<^verbatim>\<open>send_data\<close>) and
    \<^verbatim>\<open>APIReceiver\<close> (\<^verbatim>\<open>parse_data\<close>, \<^verbatim>\<open>_data_received_callback\<close>,
    \<^verbatim>\<open>_data_received_callback_multi\<close>, the queue and the flush of
    \<^verbatim>\<open>process_thingspeak_data\<close>);
  \<^item> \<^verbatim>\<open>Part 2/thingspeak_api_receiver.py\<close>: \<^verbatim>\<open>verify_received_frame\<close>.

  Bytes are 8-bit words, Python integers are \<open>int\<close> or \<open>nat\<close>, a \<^verbatim>\<open>str\<close> is the list of
  the bytes of its UTF-8 encoding (an Isabelle \<open>string\<close>), a Python \<^verbatim>\<open>float\<close> is the real
  number that its binary64 value denotes (or an infinity or NaN), and \<^verbatim>\<open>time.time()\<close>
  readings are reals that the caller passes in. Printing and logging are left out.
\<close>

section \<open>Definitions\<close>

subsection \<open>Bytes and Python slices\<close>

type_synonym byte = "8 word"

text \<open>\<^verbatim>\<open>xs[i:j]\<close> for \<open>0 \<le> i\<close>, \<open>0 \<le> j\<close>.\<close>

definition slice :: "nat \<Rightarrow> nat \<Rightarrow> 'a list \<Rightarrow> 'a list" where
  "slice i j xs = take (j - i) (drop i xs)"

subsection \<open>XBee API frame constants (class attributes of \<^verbatim>\<open>APIReceiver\<close>)\<close>

definition START_DELIMITER :: byte where
  "START_DELIMITER = 0x7E"

definition ESCAPE :: byte where
  "ESCAPE = 0x7D"

definition RX_PACKET_64 :: byte where
  "RX_PACKET_64 = 0x80"

definition RX_PACKET_16 :: byte where
  "RX_PACKET_16 = 0x81"

definition RX_PACKET :: byte where
  "RX_PACKET = 0x90"

subsection \<open>The frame decoder: \<^verbatim>\<open>_read_api_frame\<close>\<close>

text \<open>
  The \<^verbatim>\<open>while len(self.buffer) > 3\<close> loop of \<^verbatim>\<open>_read_api_frame\<close>. It returns the value the
  method returns (\<open>None\<close> or the frame data) together with \<^verbatim>\<open>self.buffer\<close> as the loop leaves
  it. A frame with a wrong checksum is dropped and the loop goes on (\<^verbatim>\<open>continue\<close>); the first
  frame with a right checksum ends the call.
\<close>

function frame_loop :: "byte list \<Rightarrow> byte list option \<times> byte list" where
  "frame_loop buffer =
     (if length buffer > 3 then
        if buffer ! 0 \<noteq> START_DELIMITER then frame_loop (tl buffer)
        else if length buffer < 3 then (None, buffer)
        else
          let frame_length = push_bit 8 (unat (buffer ! 1)) OR unat (buffer ! 2);
              total_frame_size = frame_length + 4
          in if length buffer < total_frame_size then (None, buffer)
             else
               let frame = take total_frame_size buffer;
                   buffer' = drop total_frame_size buffer;
                   checksum = sum_list (map uint (slice 3 (total_frame_size - 1) frame));
                   checksum' = 0xFF - (checksum AND 0xFF)
               in if checksum' \<noteq> uint (last frame) then frame_loop buffer'
                  else (Some (slice 3 (total_frame_size - 1) frame), buffer')
      else (None, buffer))"
  by pat_completeness auto
termination
  by (relation "measure length") (auto simp: Let_def)

declare frame_loop.simps [simp del]

text \<open>
  \<^verbatim>\<open>_read_api_frame\<close>: \<open>uart\<close> is what the UART holds when the method is called
  (\<^verbatim>\<open>self.uart.any()\<close> is false when it is empty, and the method returns at once without
  looking at the buffer); otherwise the bytes are appended to the buffer and the loop runs.
\<close>

definition read_api_frame :: "byte list \<Rightarrow> byte list \<Rightarrow> byte list option \<times> byte list" where
  "read_api_frame uart buffer =
     (if uart = [] then (None, buffer) else frame_loop (buffer @ uart))"

text \<open>
  Feeding the decoder a sequence of chunks, one call of \<^verbatim>\<open>_read_api_frame\<close> per chunk, the
  buffer carried from call to call; the result is the list of the frames the calls returned.
\<close>

fun feed :: "byte list list \<Rightarrow> byte list \<Rightarrow> byte list list" where
  "feed [] buffer = []"
| "feed (chunk # chunks) buffer =
     (case read_api_frame chunk buffer of
        (None, buffer') \<Rightarrow> feed chunks buffer'
      | (Some frame_data, buffer') \<Rightarrow> frame_data # feed chunks buffer')"

text \<open>The buffer that the calls leave behind.\<close>

fun feed_buffer :: "byte list list \<Rightarrow> byte list \<Rightarrow> byte list" where
  "feed_buffer [] buffer = buffer"
| "feed_buffer (chunk # chunks) buffer = feed_buffer chunks (snd (read_api_frame chunk buffer))"

definition feed_bytewise :: "byte list \<Rightarrow> byte list list" where
  "feed_bytewise bs = feed (map (\<lambda>b. [b]) bs) []"

definition feed_at_once :: "byte list \<Rightarrow> byte list list" where
  "feed_at_once bs = feed [bs] []"

text \<open>
  Running the loop again and again on what it left in the buffer, until it returns \<open>None\<close>:
  all the frames a buffer holds.
\<close>

function decode_all :: "byte list \<Rightarrow> byte list list" where
  "decode_all buffer =
     (case frame_loop buffer of
        (None, buffer') \<Rightarrow> []
      | (Some frame_data, buffer') \<Rightarrow> frame_data # decode_all buffer')"
  by pat_completeness auto
termination
proof (relation "measure length")
  show "wf (measure length)"
    by simp
next
  fix buffer :: "byte list" and x buffer' frame_data
  assume "(x, buffer') = frame_loop buffer" and "x = Some frame_data"
  then have run: "frame_loop buffer = (Some frame_data, buffer')"
    by simp
  have "frame_loop b = (Some f, b') \<Longrightarrow> length b' < length b" for b f b'
  proof (induction b rule: frame_loop.induct)
    case (1 buffer)
    let ?total = "(push_bit 8 (unat (buffer ! 1)) OR unat (buffer ! 2)) + 4"
    let ?bad = "0xFF - (sum_list (map uint (slice 3 (?total - 1) (take ?total buffer))) AND 0xFF)
      \<noteq> uint (last (take ?total buffer))"
    show ?case
    proof (cases "3 < length buffer")
      case False
      with "1.prems" show ?thesis
        by (subst (asm) frame_loop.simps) simp
    next
      case long: True
      show ?thesis
      proof (cases "buffer ! 0 = START_DELIMITER")
        case False
        with long "1.prems" have "frame_loop (tl buffer) = (Some f, b')"
          by (subst (asm) frame_loop.simps) simp
        with "1.IH"(1) long False have "length b' < length (tl buffer)"
          by simp
        then show ?thesis
          by simp
      next
        case start: True
        show ?thesis
        proof (cases "length buffer < ?total")
          case True
          with long start "1.prems" show ?thesis
            by (subst (asm) frame_loop.simps) (simp add: Let_def)
        next
          case complete: False
          show ?thesis
          proof (cases ?bad)
            case False
            with long start complete "1.prems" have "b' = drop ?total buffer"
              by (subst (asm) frame_loop.simps) (auto simp: Let_def)
            with complete show ?thesis
              by simp
          next
            case True
            with long start complete "1.prems"
            have rest: "frame_loop (drop ?total buffer) = (Some f, b')"
              by (subst (asm) frame_loop.simps) (auto simp: Let_def)
            have "length b' < length (drop ?total buffer)"
            proof (rule "1.IH"(2) [OF long _ _ refl refl _ refl refl refl refl])
              show "\<not> buffer ! 0 \<noteq> START_DELIMITER"
                using start by simp
              show "\<not> length buffer < 3"
                using long by simp
              show "\<not> length buffer < ?total"
                using complete by simp
              show ?bad
                using True by simp
              show "frame_loop (drop ?total buffer) = (Some f, b')"
                using rest by simp
            qed
            with complete show ?thesis
              by simp
          qed
        qed
      qed
    qed
  qed
  with run show "(buffer', buffer) \<in> measure length"
    by simp
qed

declare decode_all.simps [simp del]

text \<open>
  The quantities one round of the loop computes from a buffer that starts with the
  delimiter: the total frame size, the frame data and the checksum test. A buffer is
  \<open>stuck\<close> when the loop leaves it as it is and waits for more bytes.
\<close>

definition total_size :: "byte list \<Rightarrow> nat" where
  "total_size buffer = (push_bit 8 (unat (buffer ! 1)) OR unat (buffer ! 2)) + 4"

definition frame_data_of :: "byte list \<Rightarrow> byte list" where
  "frame_data_of buffer = slice 3 (total_size buffer - 1) (take (total_size buffer) buffer)"

definition checksum_ok :: "byte list \<Rightarrow> bool" where
  "checksum_ok buffer \<longleftrightarrow>
     0xFF - (sum_list (map uint (frame_data_of buffer)) AND 0xFF)
       = uint (last (take (total_size buffer) buffer))"

definition stuck :: "byte list \<Rightarrow> bool" where
  "stuck b \<longleftrightarrow> length b \<le> 3 \<or> (b ! 0 = START_DELIMITER \<and> length b < total_size b)"

text \<open>The checksum of the wire format, in the words of the specification.\<close>

definition spec_checksum :: "byte list \<Rightarrow> int" where
  "spec_checksum payload = 0xFF - (sum_list (map uint payload) AND 0xFF)"

subsection \<open>Unescaping: \<^verbatim>\<open>_unescape_data\<close>\<close>

function unescape_loop :: "byte list \<Rightarrow> nat \<Rightarrow> byte list \<Rightarrow> byte list" where
  "unescape_loop data i result =
     (if i < length data then
        if data ! i = ESCAPE then
          if i + 1 < length data
          then unescape_loop data (i + 2) (result @ [data ! (i + 1) XOR 0x20])
          else unescape_loop data (i + 1) result
        else unescape_loop data (i + 1) (result @ [data ! i])
      else result)"
  by pat_completeness auto
termination
  by (relation "measure (\<lambda>(data, i, result). length data - i)") auto

declare unescape_loop.simps [simp del]

definition unescape_data :: "byte list \<Rightarrow> byte list" where
  "unescape_data data = unescape_loop data 0 []"

text \<open>
  Unescaping as the specification words it, by recursion on the payload. The last equation
  is what the source does with an escape byte that nothing follows.
\<close>

fun unescape_spec :: "byte list \<Rightarrow> byte list" where
  "unescape_spec [] = []"
| "unescape_spec [x] = (if x = 0x7D then [] else [x])"
| "unescape_spec (x # b # rest) =
     (if x = 0x7D then (b XOR 0x20) # unescape_spec rest else x # unescape_spec (b # rest))"

text \<open>
  The payloads on which the loop reaches its last branch: the final byte is an escape byte
  in escape position, with nothing after it.
\<close>

fun ends_in_escape :: "byte list \<Rightarrow> bool" where
  "ends_in_escape [] = False"
| "ends_in_escape [x] = (x = 0x7D)"
| "ends_in_escape (x # b # rest) =
     (if x = 0x7D then ends_in_escape rest else ends_in_escape (b # rest))"

subsection \<open>The one-shot verifier: \<^verbatim>\<open>verify_received_frame\<close> (Part 2)\<close>

text \<open>
  \<^verbatim>\<open>verify_received_frame\<close> of \<^verbatim>\<open>Part 2/thingspeak_api_receiver.py\<close> checks one complete frame
  held in \<^verbatim>\<open>frame_bytes\<close>. The model returns the first three components of the tuple
  (\<^verbatim>\<open>is_valid\<close>, \<^verbatim>\<open>calculated_checksum\<close>, \<^verbatim>\<open>received_checksum\<close>); the fourth is a diagnostic
  text.
\<close>

definition verify_received_frame :: "byte list \<Rightarrow> bool \<times> int option \<times> int option" where
  "verify_received_frame frame_bytes =
     (if frame_bytes = [] \<or> length frame_bytes < 5 then (False, None, None)
      else
        let start_delimiter = frame_bytes ! 0;
            length_msb = uint (frame_bytes ! 1);
            length_lsb = uint (frame_bytes ! 2);
            len = push_bit 8 length_msb + length_lsb
        in if start_delimiter \<noteq> 0x7E then (False, None, None)
           else if int (length frame_bytes) \<noteq> len + 4 then (False, None, None)
           else
             let frame_data = slice 3 (length frame_bytes - 1) frame_bytes;
                 received_checksum = uint (last frame_bytes);
                 checksum = sum_list (map uint frame_data);
                 calculated_checksum = 0xFF - (checksum AND 0xFF)
             in (calculated_checksum = received_checksum,
                 Some calculated_checksum, Some received_checksum))"

subsection \<open>Decoding UTF-8: \<^verbatim>\<open>bytes.decode('utf-8')\<close>\<close>

text \<open>
  The well-formed UTF-8 byte sequences (Unicode, table 3-7), which are the ones the strict
  decoder accepts: no overlong forms, no surrogates, nothing above U+10FFFF. A \<^verbatim>\<open>str\<close> is
  kept as the bytes of its UTF-8 encoding, so decoding a well-formed sequence returns the
  same bytes as characters, and an ill-formed one is \<open>None\<close> (\<^verbatim>\<open>UnicodeDecodeError\<close>).
\<close>

definition utf8_cont :: "nat \<Rightarrow> bool" where
  "utf8_cont b \<longleftrightarrow> 0x80 \<le> b \<and> b \<le> 0xBF"

definition utf8_second3 :: "nat \<Rightarrow> nat \<Rightarrow> bool" where
  "utf8_second3 b0 b1 \<longleftrightarrow>
     (if b0 = 0xE0 then 0xA0 \<le> b1 \<and> b1 \<le> 0xBF
      else if b0 = 0xED then 0x80 \<le> b1 \<and> b1 \<le> 0x9F
      else utf8_cont b1)"

definition utf8_second4 :: "nat \<Rightarrow> nat \<Rightarrow> bool" where
  "utf8_second4 b0 b1 \<longleftrightarrow>
     (if b0 = 0xF0 then 0x90 \<le> b1 \<and> b1 \<le> 0xBF
      else if b0 = 0xF4 then 0x80 \<le> b1 \<and> b1 \<le> 0x8F
      else utf8_cont b1)"

fun utf8_wellformed :: "nat list \<Rightarrow> bool" where
  "utf8_wellformed [] = True"
| "utf8_wellformed (b0 # bs) =
     (if b0 < 0x80 then utf8_wellformed bs
      else if 0xC2 \<le> b0 \<and> b0 \<le> 0xDF then
        (case bs of
           b1 # r \<Rightarrow> utf8_cont b1 \<and> utf8_wellformed r
         | _ \<Rightarrow> False)
      else if 0xE0 \<le> b0 \<and> b0 \<le> 0xEF then
        (case bs of
           b1 # b2 # r \<Rightarrow> utf8_second3 b0 b1 \<and> utf8_cont b2 \<and> utf8_wellformed r
         | _ \<Rightarrow> False)
      else if 0xF0 \<le> b0 \<and> b0 \<le> 0xF4 then
        (case bs of
           b1 # b2 # b3 # r \<Rightarrow>
             utf8_second4 b0 b1 \<and> utf8_cont b2 \<and> utf8_cont b3 \<and> utf8_wellformed r
         | _ \<Rightarrow> False)
      else False)"

definition decode_utf8 :: "byte list \<Rightarrow> string option" where
  "decode_utf8 bs =
     (if utf8_wellformed (map unat bs) then Some (map (\<lambda>b. char_of (unat b)) bs) else None)"

subsection \<open>The payload extractor: \<^verbatim>\<open>_process_rx_packet\<close>\<close>

text \<open>
  The header widths are the source's: 12 bytes for \<open>0x90\<close> (frame type, 64-bit address, 16-bit
  network address, receive options), 5 bytes for \<open>0x81\<close> (frame type, 16-bit address, RSSI,
  options) and 11 bytes for \<open>0x80\<close> (frame type, 64-bit address, RSSI, options). The result
  is the RF data decoded as UTF-8, or \<open>None\<close>.
\<close>

definition process_rx_packet :: "byte list \<Rightarrow> string option" where
  "process_rx_packet frame_data =
     (if frame_data = [] \<or> length frame_data < 1 then None
      else
        let frame_type = frame_data ! 0
        in if frame_type = RX_PACKET then
             (if length frame_data < 12 then None
              else decode_utf8 (drop 12 frame_data))
           else if frame_type = RX_PACKET_16 then
             (if length frame_data < 5 then None
              else decode_utf8 (drop 5 frame_data))
           else if frame_type = RX_PACKET_64 then
             (if length frame_data < 11 then None
              else decode_utf8 (drop 11 frame_data))
           else None)"

text \<open>
  The header widths as the specification gives them, the frame type byte included: an 8-byte
  address and one status byte for the 64-bit variant, a 2-byte address and one status byte
  for the 16-bit variant, an 8-byte address, a 2-byte network address and one options byte
  for the generic variant.
\<close>

definition spec_header_width :: "byte \<Rightarrow> nat option" where
  "spec_header_width tag =
     (if tag = 0x80 then Some (1 + 8 + 1)
      else if tag = 0x81 then Some (1 + 2 + 1)
      else if tag = 0x90 then Some (1 + 8 + 2 + 1)
      else None)"

definition spec_extract :: "byte list \<Rightarrow> byte list option" where
  "spec_extract payload =
     (case payload of
        [] \<Rightarrow> None
      | tag # _ \<Rightarrow>
          (case spec_header_width tag of
             None \<Rightarrow> None
           | Some w \<Rightarrow> if length payload < w then None else Some (drop w payload)))"

subsection \<open>Python strings and \<^verbatim>\<open>float()\<close>\<close>

datatype py_error = IndexError | ValueError

text \<open>
  A Python \<^verbatim>\<open>float\<close>: the real number that the binary64 value denotes, an infinity or
  NaN. The two zeros are one value.
\<close>

datatype py_float = Finite real | PosInf | NegInf | NaN

definition startswith :: "string \<Rightarrow> string \<Rightarrow> bool" where
  "startswith s p \<longleftrightarrow> take (length p) s = p"

text \<open>\<^verbatim>\<open>s.split(sep)\<close> for a one-character separator: never empty, one more part than separators.\<close>

fun py_split :: "char \<Rightarrow> string \<Rightarrow> string list" where
  "py_split sep [] = [[]]"
| "py_split sep (c # cs) =
     (if c = sep then [] # py_split sep cs
      else (case py_split sep cs of
              [] \<Rightarrow> [[c]]
            | p # ps \<Rightarrow> (c # p) # ps))"

text \<open>\<^verbatim>\<open>xs[i]\<close> for \<open>0 \<le> i\<close>: \<^verbatim>\<open>IndexError\<close> out of range.\<close>

definition item :: "'a list \<Rightarrow> nat \<Rightarrow> py_error + 'a" where
  "item xs i = (if i < length xs then Inr (xs ! i) else Inl IndexError)"

text \<open>
  \<^verbatim>\<open>float(s)\<close> on ASCII text, after the grammar of the language reference: the white space
  characters \<open>0x09\<close> to \<open>0x0D\<close> and \<open>0x20\<close> are stripped at both ends; an underscore may stand
  between two digits; then an optional sign and \<^verbatim>\<open>inf\<close>, \<^verbatim>\<open>infinity\<close> or \<^verbatim>\<open>nan\<close> in any
  case, or digits with an optional point and an optional exponent. Anything else is
  \<^verbatim>\<open>ValueError\<close>. The value of the literal is rounded to the nearest binary64 number, a
  tie to the one with the even significand; a literal whose value reaches
  \<open>2^1024 - 2^970\<close>, half a unit beyond the largest binary64 number, is an infinity.
  Outside the model: digits and white space beyond ASCII, which \<^verbatim>\<open>float()\<close> also accepts.
\<close>

definition is_digit :: "char \<Rightarrow> bool" where
  "is_digit c \<longleftrightarrow> 48 \<le> (of_char c :: nat) \<and> (of_char c :: nat) \<le> 57"

definition py_isspace :: "char \<Rightarrow> bool" where
  "py_isspace c \<longleftrightarrow>
     (9 \<le> (of_char c :: nat) \<and> (of_char c :: nat) \<le> 13) \<or> (of_char c :: nat) = 32"

definition strip :: "string \<Rightarrow> string" where
  "strip s = rev (dropWhile py_isspace (rev (dropWhile py_isspace s)))"

fun remove_underscores :: "char \<Rightarrow> string \<Rightarrow> string option" where
  "remove_underscores prev [] = (if prev = CHR ''_'' then None else Some [])"
| "remove_underscores prev (c # cs) =
     (if c = CHR ''_'' then
        (if is_digit prev then remove_underscores c cs else None)
      else if prev = CHR ''_'' \<and> \<not> is_digit c then None
      else map_option ((#) c) (remove_underscores c cs))"

definition lower :: "char \<Rightarrow> char" where
  "lower c =
     (if 65 \<le> (of_char c :: nat) \<and> (of_char c :: nat) \<le> 90
      then char_of ((of_char c :: nat) + 32) else c)"

definition digits_value :: "string \<Rightarrow> nat" where
  "digits_value ds = foldl (\<lambda>a c. 10 * a + ((of_char c :: nat) - 48)) 0 ds"

definition parse_sign :: "string \<Rightarrow> bool \<times> string" where
  "parse_sign s =
     (case s of
        [] \<Rightarrow> (False, [])
      | c # r \<Rightarrow> if c = CHR ''-'' then (True, r) else if c = CHR ''+'' then (False, r) else (False, s))"

definition scaled :: "nat \<Rightarrow> int \<Rightarrow> real" where
  "scaled m e = (if 0 \<le> e then real m * 10 ^ nat e else real m / 10 ^ nat (- e))"

definition parse_number :: "string \<Rightarrow> real option" where
  "parse_number s =
     (let ip = takeWhile is_digit s;
          r1 = dropWhile is_digit s;
          fp = (case r1 of [] \<Rightarrow> [] | c # r \<Rightarrow> if c = CHR ''.'' then takeWhile is_digit r else []);
          r2 = (case r1 of [] \<Rightarrow> [] | c # r \<Rightarrow> if c = CHR ''.'' then dropWhile is_digit r else r1)
      in if ip = [] \<and> fp = [] then None
         else (case r2 of
                 [] \<Rightarrow> Some (scaled (digits_value (ip @ fp)) (- int (length fp)))
               | e # r3 \<Rightarrow>
                   if e = CHR ''e'' \<or> e = CHR ''E'' then
                     (case parse_sign r3 of
                        (neg, ds) \<Rightarrow>
                          if ds \<noteq> [] \<and> list_all is_digit ds
                          then Some (scaled (digits_value (ip @ fp))
                                 ((if neg then - int (digits_value ds) else int (digits_value ds))
                                   - int (length fp)))
                          else None)
                   else None))"

text \<open>
  Rounding a real number to binary64 (IEEE 754, round to nearest, ties to even):
  \<open>bit_length\<close> is \<^verbatim>\<open>int.bit_length\<close>; \<open>exponent a\<close> is the \<open>e\<close> with \<open>2^e \<le> a < 2^(e+1)\<close> for
  a positive \<open>a\<close>; the spacing of the binary64 numbers at \<open>a\<close> is \<open>2^(e - 52)\<close>, and
  \<open>2^(-1074)\<close> below \<open>2^(-1022)\<close>; a result of \<open>2^1024\<close> or more is an infinity.
\<close>

fun bit_length :: "nat \<Rightarrow> nat" where
  "bit_length n = (if n = 0 then 0 else Suc (bit_length (n div 2)))"

declare bit_length.simps [simp del]

definition exponent :: "real \<Rightarrow> int" where
  "exponent a =
     (if 1 \<le> a then int (bit_length (nat \<lfloor>a\<rfloor>)) - 1
      else let k = bit_length (nat \<lfloor>1 / a\<rfloor>) - 1
           in if a * 2 ^ k = 1 then - int k else - int k - 1)"

definition pow2 :: "int \<Rightarrow> real" where
  "pow2 e = (if 0 \<le> e then 2 ^ nat e else 1 / 2 ^ nat (- e))"

definition round_half_even :: "real \<Rightarrow> int" where
  "round_half_even y =
     (let f = \<lfloor>y\<rfloor>
      in if y - real_of_int f < 1 / 2 then f
         else if 1 / 2 < y - real_of_int f then f + 1
         else if even f then f else f + 1)"

definition binary64 :: "real \<Rightarrow> py_float" where
  "binary64 x =
     (if x = 0 then Finite 0
      else
        let a = \<bar>x\<bar>;
            ulp = pow2 (max (exponent a) (- 1022) - 52);
            r = real_of_int (round_half_even (a / ulp)) * ulp
        in if 179769313486231590772930519078902473361797697894230657273430081157732675805500963132708477322407536021120113879871393357658789768814416622492847430639474124377767893424865485276302219601246094119453082952085005768838150682342462881473913110540827237163350510684586298239947245938479716304835356329624224137216 \<le> r
           then (if 0 < x then PosInf else NegInf)
           else Finite (if 0 < x then r else - r))"

definition py_float :: "string \<Rightarrow> py_error + py_float" where
  "py_float s =
     (case remove_underscores (CHR 0x00) (strip s) of
        None \<Rightarrow> Inl ValueError
      | Some t \<Rightarrow>
          (case parse_sign t of
             (neg, u) \<Rightarrow>
               if map lower u = ''inf'' \<or> map lower u = ''infinity''
               then Inr (if neg then NegInf else PosInf)
               else if map lower u = ''nan'' then Inr NaN
               else (case parse_number u of
                       None \<Rightarrow> Inl ValueError
                     | Some r \<Rightarrow> Inr (binary64 (if neg then - r else r)))))"

subsection \<open>The reading parser: \<^verbatim>\<open>parse_data\<close>\<close>

text \<open>The argument is a \<^verbatim>\<open>str\<close> or, from the receive callbacks, a \<^verbatim>\<open>bytearray\<close>.\<close>

datatype data_arg = PyStr string | PyByteArray "byte list"

definition raise_bind :: "py_error + 'a \<Rightarrow> ('a \<Rightarrow> py_error + 'b) \<Rightarrow> py_error + 'b" where
  "raise_bind r f = (case r of Inl e \<Rightarrow> Inl e | Inr x \<Rightarrow> f x)"

text \<open>
  The body of the \<^verbatim>\<open>try\<close>: \<open>Inl\<close> is the exception it raises
  (\<^verbatim>\<open>UnicodeDecodeError\<close> is a \<^verbatim>\<open>ValueError\<close>).
\<close>

definition parse_data_try :: "data_arg \<Rightarrow> py_error + (py_float \<times> py_float \<times> py_float) option" where
  "parse_data_try arg =
     raise_bind
       (case arg of
          PyByteArray b \<Rightarrow> (case decode_utf8 b of None \<Rightarrow> Inl ValueError | Some s \<Rightarrow> Inr s)
        | PyStr s \<Rightarrow> Inr s)
       (\<lambda>data_string.
          if \<not> startswith data_string ''DATA:'' then Inr None
          else
            let parts = py_split CHR '','' data_string
            in raise_bind (item parts 0) (\<lambda>temp_part.
               raise_bind (item (py_split CHR '':'' temp_part) 2) (\<lambda>temp_text.
               raise_bind (py_float temp_text) (\<lambda>temperature.
               raise_bind (item parts 1) (\<lambda>hum_part.
               raise_bind (item (py_split CHR '':'' hum_part) 1) (\<lambda>hum_text.
               raise_bind (py_float hum_text) (\<lambda>humidity.
               raise_bind (item parts 2) (\<lambda>ppm_part.
               raise_bind (item (py_split CHR '':'' ppm_part) 1) (\<lambda>ppm_text.
               raise_bind (py_float ppm_text) (\<lambda>ppm.
               Inr (Some (temperature, humidity, ppm))))))))))))"

text \<open>\<^verbatim>\<open>except (IndexError, ValueError)\<close>: both become \<open>None\<close>.\<close>

definition parse_data :: "data_arg \<Rightarrow> (py_float \<times> py_float \<times> py_float) option" where
  "parse_data arg =
     (case parse_data_try arg of
        Inl IndexError \<Rightarrow> None
      | Inl ValueError \<Rightarrow> None
      | Inr result \<Rightarrow> result)"

text \<open>
  The value the parser reads at one position: part \<open>j\<close> of the colon-separated parts of
  field \<open>i\<close>, when both exist and \<^verbatim>\<open>float()\<close> accepts the text.
\<close>

definition field_value :: "string list \<Rightarrow> nat \<Rightarrow> nat \<Rightarrow> py_float option" where
  "field_value parts i j =
     (if i < length parts \<and> j < length (py_split CHR '':'' (parts ! i))
      then (case py_float (py_split CHR '':'' (parts ! i) ! j) of
              Inl e \<Rightarrow> None
            | Inr v \<Rightarrow> Some v)
      else None)"

text \<open>
  The labels the specification asks for: three comma-separated fields that begin with
  \<^verbatim>\<open>DATA:TEMP:\<close>, \<^verbatim>\<open>HUM:\<close> and \<^verbatim>\<open>PPM:\<close>, in this order.
\<close>

definition spec_labels :: "string \<Rightarrow> bool" where
  "spec_labels s \<longleftrightarrow>
     (case py_split CHR '','' s of
        [f1, f2, f3] \<Rightarrow>
          startswith f1 ''DATA:TEMP:'' \<and> startswith f2 ''HUM:'' \<and> startswith f3 ''PPM:''
      | _ \<Rightarrow> False)"

subsection \<open>The receive callbacks and their de-duplication\<close>

text \<open>
  \<^verbatim>\<open>round(x, 2)\<close>: the value of the binary64 number \<open>x\<close> to two decimals, ties to the even
  neighbour; the result of \<^verbatim>\<open>round\<close> is the binary64 number nearest to that, which
  \<open>fahrenheit\<close> takes.
\<close>

definition py_round2 :: "real \<Rightarrow> real" where
  "py_round2 x =
     (let y = x * 100; f = \<lfloor>y\<rfloor>
      in (if y - real_of_int f < 1 / 2 then real_of_int f
          else if 1 / 2 < y - real_of_int f then real_of_int (f + 1)
          else if even f then real_of_int f else real_of_int (f + 1)) / 100)"

text \<open>
  \<^verbatim>\<open>round((temperature * 9/5) + 32, 2)\<close>, each operation rounded to binary64: the product
  by 9, the quotient by 5, the sum with 32 and the rounding to two decimals. Only the
  product can overflow; an infinity and NaN pass through all four.
\<close>

fun fahrenheit :: "py_float \<Rightarrow> py_float" where
  "fahrenheit (Finite c) =
     (case binary64 (c * 9) of
        Finite c9 \<Rightarrow>
          (case binary64 (c9 / 5) of
             Finite q \<Rightarrow>
               (case binary64 (q + 32) of
                  Finite f \<Rightarrow> binary64 (py_round2 f)
                | other \<Rightarrow> other)
           | other \<Rightarrow> other)
      | other \<Rightarrow> other)"
| "fahrenheit PosInf = PosInf"
| "fahrenheit NegInf = NegInf"
| "fahrenheit NaN = NaN"

text \<open>
  An \<^verbatim>\<open>XBeeMessage\<close>: its \<^verbatim>\<open>data\<close> and the text of its \<^verbatim>\<open>remote_device\<close>.
\<close>

record xbee_message =
  data :: "byte list"
  remote_device :: string

text \<open>
  \<^verbatim>\<open>''.join(c for c in raw_address if c.isalnum()).upper()\<close>, on ASCII text.
\<close>

definition py_isalnum :: "char \<Rightarrow> bool" where
  "py_isalnum c \<longleftrightarrow>
     (48 \<le> (of_char c :: nat) \<and> (of_char c :: nat) \<le> 57)
     \<or> (65 \<le> (of_char c :: nat) \<and> (of_char c :: nat) \<le> 90)
     \<or> (97 \<le> (of_char c :: nat) \<and> (of_char c :: nat) \<le> 122)"

definition upper :: "char \<Rightarrow> char" where
  "upper c =
     (if 97 \<le> (of_char c :: nat) \<and> (of_char c :: nat) \<le> 122
      then char_of ((of_char c :: nat) - 32) else c)"

definition clean_sender :: "string \<Rightarrow> string" where
  "clean_sender raw_address = map upper (filter py_isalnum raw_address)"

text \<open>What the callbacks put into \<^verbatim>\<open>self.data_queue\<close>: a 4-tuple, or a 5-tuple with the node.\<close>

datatype queue_item =
  Reading py_float py_float py_float py_float
| NodeReading string py_float py_float py_float py_float

text \<open>
  The attributes of \<^verbatim>\<open>APIReceiver\<close> that the callbacks read and write. An attribute that
  \<^verbatim>\<open>hasattr\<close> tests is an option: \<open>last_frame\<close> is the pair \<^verbatim>\<open>last_frame_id\<close>,
  \<^verbatim>\<open>last_frame_time\<close> (always set together), \<open>last_frames\<close> the pair of dictionaries
  \<^verbatim>\<open>last_frame_ids\<close>, \<^verbatim>\<open>last_frame_times\<close> (created together). The \<^verbatim>\<open>timestamp\<close> text of a
  \<^verbatim>\<open>node_data\<close> entry is left out.
\<close>

record receiver =
  temperature :: py_float
  humidity :: py_float
  ppm :: py_float
  temperatureF :: py_float
  last_frame :: "(byte list \<times> real) option"
  last_frames :: "((string \<rightharpoonup> byte list) \<times> (string \<rightharpoonup> real)) option"
  node_data :: "(string \<rightharpoonup> py_float \<times> py_float \<times> py_float \<times> py_float) option"
  data_queue :: "queue_item list option"

text \<open>\<^verbatim>\<open>APIReceiver.__init__\<close>, and the state once the upload thread has created the queue.\<close>

definition receiver_init :: receiver where
  "receiver_init =
     \<lparr>temperature = Finite 0, humidity = Finite 0, ppm = Finite 0, temperatureF = Finite 0,
      last_frame = None, last_frames = None, node_data = None, data_queue = None\<rparr>"

definition receiver_started :: receiver where
  "receiver_started = receiver_init\<lparr>data_queue := Some []\<rparr>"

text \<open>
  The test of \<^verbatim>\<open>_data_received_callback\<close> that ends the call for a duplicate:
  \<open>current_time\<close> is the \<^verbatim>\<open>time.time()\<close> reading of the call.
\<close>

definition is_duplicate :: "receiver \<Rightarrow> byte list \<Rightarrow> real \<Rightarrow> bool" where
  "is_duplicate self frame_identifier current_time \<longleftrightarrow>
     (case last_frame self of
        None \<Rightarrow> False
      | Some (last_frame_id, last_frame_time) \<Rightarrow>
          last_frame_id = frame_identifier \<and> current_time - last_frame_time < 1.0)"

text \<open>
  \<^verbatim>\<open>_data_received_callback\<close>. The payload is decoded for the console before it is
  parsed; a failure there is caught by the handler at the end of the method, after the
  last frame has been stored.
\<close>

definition data_received_callback :: "receiver \<Rightarrow> xbee_message \<Rightarrow> real \<Rightarrow> receiver" where
  "data_received_callback self xbee_message current_time =
     (let data_payload = data xbee_message
      in if is_duplicate self data_payload current_time then self
         else
           let self1 = self\<lparr>last_frame := Some (data_payload, current_time)\<rparr>
           in (case decode_utf8 data_payload of
                 None \<Rightarrow> self1
               | Some shown \<Rightarrow>
                   (case parse_data (PyByteArray data_payload) of
                      None \<Rightarrow> self1
                    | Some (t, h, p) \<Rightarrow>
                        self1\<lparr>temperature := t, humidity := h, ppm := p,
                          temperatureF := fahrenheit t,
                          data_queue :=
                            map_option (\<lambda>q. q @ [Reading t h p (fahrenheit t)])
                              (data_queue self1)\<rparr>)))"

text \<open>
  The dictionaries of \<^verbatim>\<open>_data_received_callback_multi\<close>, created when the attribute is
  missing, and its duplicate test for one sender.
\<close>

definition frames_of :: "receiver \<Rightarrow> (string \<rightharpoonup> byte list) \<times> (string \<rightharpoonup> real)" where
  "frames_of self = (case last_frames self of None \<Rightarrow> (Map.empty, Map.empty) | Some d \<Rightarrow> d)"

definition is_duplicate_multi :: "receiver \<Rightarrow> string \<Rightarrow> byte list \<Rightarrow> real \<Rightarrow> bool" where
  "is_duplicate_multi self sender data_payload current_time \<longleftrightarrow>
     (case (fst (frames_of self) sender, snd (frames_of self) sender) of
        (Some last_id, Some last_time) \<Rightarrow>
          last_id = data_payload \<and> current_time - last_time < 1.0
      | _ \<Rightarrow> False)"

definition data_received_callback_multi :: "receiver \<Rightarrow> xbee_message \<Rightarrow> real \<Rightarrow> receiver" where
  "data_received_callback_multi self xbee_message current_time =
     (let data_payload = data xbee_message;
          sender = clean_sender (remote_device xbee_message);
          self0 = self\<lparr>last_frames := Some (frames_of self)\<rparr>
      in if is_duplicate_multi self0 sender data_payload current_time then self0
         else
           let self1 = self0\<lparr>last_frames :=
                 Some ((fst (frames_of self0))(sender \<mapsto> data_payload),
                       (snd (frames_of self0))(sender \<mapsto> current_time))\<rparr>
           in (case parse_data (PyByteArray data_payload) of
                 None \<Rightarrow> self1
               | Some (t, h, p) \<Rightarrow>
                   self1\<lparr>node_data :=
                       Some ((case node_data self1 of None \<Rightarrow> Map.empty | Some d \<Rightarrow> d)
                         (sender \<mapsto> (t, h, p, fahrenheit t))),
                     data_queue :=
                       map_option (\<lambda>q. q @ [NodeReading sender t h p (fahrenheit t)])
                         (data_queue self1)\<rparr>))"

text \<open>
  A run of the multi-sender callback over timed deliveries: the final state and, for each
  delivery in turn, whether it was accepted (not ended by the duplicate test).
\<close>

fun deliver :: "receiver \<Rightarrow> (xbee_message \<times> real) list \<Rightarrow> receiver \<times> bool list" where
  "deliver self [] = (self, [])"
| "deliver self ((m, t) # rest) =
     (let accepted =
            \<not> is_duplicate_multi self (clean_sender (remote_device m)) (data m) t;
          (self', flags) = deliver (data_received_callback_multi self m t) rest
      in (self', accepted # flags))"

text \<open>The deliveries of a run that were accepted, oldest first.\<close>

definition accepted_of :: "receiver \<Rightarrow> (xbee_message \<times> real) list \<Rightarrow> (xbee_message \<times> real) list" where
  "accepted_of self ms = map fst (filter snd (zip ms (snd (deliver self ms))))"

text \<open>
  The specification's slot for a sender: the most recent accepted delivery from it, if any.
\<close>

definition last_accepted_from :: "string \<Rightarrow> (xbee_message \<times> real) list \<Rightarrow> (xbee_message \<times> real) option" where
  "last_accepted_from sender accepted =
     (case filter (\<lambda>(m, t). clean_sender (remote_device m) = sender) accepted of
        [] \<Rightarrow> None
      | ms \<Rightarrow> Some (last ms))"

text \<open>The same message delivered every \<open>period\<close> seconds, \<open>n\<close> times, from time 0.\<close>

definition stream :: "xbee_message \<Rightarrow> real \<Rightarrow> nat \<Rightarrow> (xbee_message \<times> real) list" where
  "stream m period n = map (\<lambda>k. (m, period * real k)) [0..<n]"

text \<open>The same run for the single-slot callback \<^verbatim>\<open>_data_received_callback\<close>.\<close>

fun deliver_single_slot :: "receiver \<Rightarrow> (xbee_message \<times> real) list \<Rightarrow> receiver \<times> bool list" where
  "deliver_single_slot self [] = (self, [])"
| "deliver_single_slot self ((m, t) # rest) =
     (let accepted = \<not> is_duplicate self (data m) t;
          (self', flags) = deliver_single_slot (data_received_callback self m t) rest
      in (self', accepted # flags))"

definition accepted_single_slot :: "receiver \<Rightarrow> (xbee_message \<times> real) list \<Rightarrow> (xbee_message \<times> real) list" where
  "accepted_single_slot self ms = map fst (filter snd (zip ms (snd (deliver_single_slot self ms))))"

text \<open>
  The invariants of the two runs: the slots hold the most recent accepted delivery (of each
  sender, or of all senders for the single slot).
\<close>

definition slots_match :: "receiver \<Rightarrow> (xbee_message \<times> real) list \<Rightarrow> bool" where
  "slots_match self acc \<longleftrightarrow>
     (\<forall>sender.
        fst (frames_of self) sender = map_option (\<lambda>(m, t). data m) (last_accepted_from sender acc)
        \<and> snd (frames_of self) sender = map_option snd (last_accepted_from sender acc))"

definition slot_matches :: "receiver \<Rightarrow> (xbee_message \<times> real) list \<Rightarrow> bool" where
  "slot_matches self acc \<longleftrightarrow>
     last_frame self = (if acc = [] then None else Some (data (fst (last acc)), snd (last acc)))"

text \<open>
  A delivery for the examples: the text \<^verbatim>\<open>DATA:TEMP:26,HUM:28,PPM:400\<close> from one node.
\<close>

definition sample_message :: xbee_message where
  "sample_message =
     \<lparr>data = [0x44, 0x41, 0x54, 0x41, 0x3A, 0x54, 0x45, 0x4D, 0x50, 0x3A, 0x32, 0x36, 0x2C,
              0x48, 0x55, 0x4D, 0x3A, 0x32, 0x38, 0x2C, 0x50, 0x50, 0x4D, 0x3A, 0x34, 0x30, 0x30],
      remote_device = ''0013a200-42010917''\<rparr>"

text \<open>
  Two more deliveries for the examples: the same bytes from another node, and the text
  \<^verbatim>\<open>DATA:TEMP:27,HUM:28,PPM:400\<close> from that other node.
\<close>

definition other_node_message :: xbee_message where
  "other_node_message = sample_message\<lparr>remote_device := ''0013a200-42010918''\<rparr>"

definition other_reading_message :: xbee_message where
  "other_reading_message =
     \<lparr>data = [0x44, 0x41, 0x54, 0x41, 0x3A, 0x54, 0x45, 0x4D, 0x50, 0x3A, 0x32, 0x37, 0x2C,
              0x48, 0x55, 0x4D, 0x3A, 0x32, 0x38, 0x2C, 0x50, 0x50, 0x4D, 0x3A, 0x34, 0x30, 0x30],
      remote_device = ''0013a200-42010918''\<rparr>"

subsection \<open>The forwarder: \<^verbatim>\<open>ThingSpeakClient\<close>\<close>

record thingspeak_client =
  last_update_time :: real
  min_interval :: real

text \<open>\<^verbatim>\<open>ThingSpeakClient.__init__\<close>.\<close>

definition thingspeak_client_init :: thingspeak_client where
  "thingspeak_client_init = \<lparr>last_update_time = 0, min_interval = 20\<rparr>"

text \<open>
  What \<^verbatim>\<open>self.channel.update(data)\<close> does: it raises, or it returns a response. The
  response is a value of the library: an integer (the entry number, or 0 when the update
  was refused), a text, or another object that is not equal to 0, such as a decoded
  dictionary. The method compares it with 0, and a text is never equal to 0:
  \<^verbatim>\<open>'0' == 0\<close> is false.
\<close>

datatype update_outcome =
  UpdateRaises
| UpdateReturns int
| UpdateReturnsText string
| UpdateReturnsObject

text \<open>The value \<^verbatim>\<open>send_data\<close> returns when it does not return \<open>None\<close>: the response.\<close>

datatype reply = NumberReply int | TextReply string | ObjectReply

text \<open>
  One call of \<^verbatim>\<open>send_data\<close>: \<open>current_time\<close> is the first \<^verbatim>\<open>time.time()\<close> reading,
  \<open>time_after\<close> the one taken after a response that is not equal to 0. The result holds the
  client as the call leaves it, the value returned and the argument of \<^verbatim>\<open>time.sleep\<close> when
  the call slept before the update.
\<close>

record send_result =
  client_after :: thingspeak_client
  returned :: "reply option"
  slept :: "real option"

definition send_data :: "thingspeak_client \<Rightarrow> real \<Rightarrow> update_outcome \<Rightarrow> real \<Rightarrow> send_result" where
  "send_data self current_time outcome time_after =
     (let wait =
            (if current_time - last_update_time self < min_interval self
             then Some (min_interval self - (current_time - last_update_time self))
             else None)
      in (case outcome of
            UpdateRaises \<Rightarrow> \<lparr>client_after = self, returned = None, slept = wait\<rparr>
          | UpdateReturns response \<Rightarrow>
              if response = 0 then \<lparr>client_after = self, returned = None, slept = wait\<rparr>
              else \<lparr>client_after = self\<lparr>last_update_time := time_after\<rparr>,
                     returned = Some (NumberReply response), slept = wait\<rparr>
          | UpdateReturnsText response \<Rightarrow>
              \<lparr>client_after = self\<lparr>last_update_time := time_after\<rparr>,
                returned = Some (TextReply response), slept = wait\<rparr>
          | UpdateReturnsObject \<Rightarrow>
              \<lparr>client_after = self\<lparr>last_update_time := time_after\<rparr>,
                returned = Some ObjectReply, slept = wait\<rparr>))"

text \<open>
  A series of calls of \<^verbatim>\<open>send_data\<close> on one client, each with its two clock readings and
  what the update did; the calls that the method takes as sent, which are those whose
  response is not equal to 0; and the clock readings taken after those.
\<close>

fun succeeded :: "update_outcome \<Rightarrow> bool" where
  "succeeded UpdateRaises = False"
| "succeeded (UpdateReturns response) = (response \<noteq> 0)"
| "succeeded (UpdateReturnsText response) = True"
| "succeeded UpdateReturnsObject = True"

fun send_all :: "thingspeak_client \<Rightarrow> (real \<times> update_outcome \<times> real) list \<Rightarrow> thingspeak_client" where
  "send_all self [] = self"
| "send_all self ((current_time, outcome, time_after) # rest) =
     send_all (client_after (send_data self current_time outcome time_after)) rest"

definition success_times :: "(real \<times> update_outcome \<times> real) list \<Rightarrow> real list" where
  "success_times attempts =
     map (\<lambda>(t, outcome, t'). t') (filter (\<lambda>(t, outcome, t'). succeeded outcome) attempts)"

text \<open>
  The flush test of \<^verbatim>\<open>process_thingspeak_data\<close>:
  \<^verbatim>\<open>current_time - last_upload_time >= 15 and data_buffer\<close>.
\<close>

definition flush_due :: "real \<Rightarrow> real \<Rightarrow> 'a list \<Rightarrow> bool" where
  "flush_due current_time last_upload_time data_buffer \<longleftrightarrow>
     current_time - last_upload_time \<ge> 15 \<and> data_buffer \<noteq> []"

subsection \<open>The upload thread and its queue: \<^verbatim>\<open>process_thingspeak_data\<close>\<close>








section \<open>Properties\<close>

subsection \<open>The frame decoder\<close>

text \<open>The length field is big-endian: high byte times 256 plus low byte.\<close>

lemma frame_length_big_endian:
  "push_bit 8 (unat (hi :: byte)) OR unat (lo :: byte) = 256 * unat hi + unat lo"
proof -
  have "push_bit 8 (unat hi) AND unat lo = 0"
    by (auto simp: bit_eq_iff bit_simps dest: bit_imp_le_length)
  then have "push_bit 8 (unat hi) + unat lo = push_bit 8 (unat hi) OR unat lo"
    by (rule disjunctive_add_eq_or)
  then show ?thesis
    by (simp add: push_bit_eq_mult)
qed

lemma take_frame:
  "take (length payload + 4) (d # hi # lo # payload @ c # rest) = d # hi # lo # payload @ [c]"
  by (simp add: numeral_eq_Suc)

lemma drop_frame:
  "drop (length payload + 4) (d # hi # lo # payload @ c # rest) = rest"
  by (simp add: numeral_eq_Suc)

lemma slice_frame:
  "slice 3 (length payload + 4 - 1) (d # hi # lo # payload @ [c]) = payload"
  by (simp add: slice_def numeral_eq_Suc)

text \<open>
  One run of the loop on a buffer that starts with a complete frame: the frame is returned
  when its last byte is the checksum of its payload, and otherwise it is dropped and the
  loop goes on with what follows it.
\<close>

lemma frame_loop_complete_frame:
  assumes len: "length payload = 256 * unat hi + unat lo"
  shows "frame_loop (START_DELIMITER # hi # lo # payload @ c # rest) =
     (if uint c = spec_checksum payload then (Some payload, rest) else frame_loop rest)"
proof -
  let ?buffer = "START_DELIMITER # hi # lo # payload @ c # rest"
  have n: "push_bit 8 (unat (?buffer ! 1)) OR unat (?buffer ! 2) = length payload"
    using len by (simp add: frame_length_big_endian)
  show ?thesis
    by (subst frame_loop.simps, unfold n Let_def take_frame drop_frame slice_frame)
       (auto simp: spec_checksum_def)
qed

lemma frame_loop_Nil: "frame_loop [] = (None, [])"
  by (subst frame_loop.simps) simp

text \<open>
  The one-shot verifier of Part 2 agrees on every complete frame with a payload of at
  least one byte: it reports the frame valid exactly when the trailing byte is the
  checksum. Its guard \<^verbatim>\<open>len(frame_bytes) < 5\<close> refuses the four-byte frame with an empty
  payload whatever its checksum.
\<close>

lemma verify_received_frame_valid:
  assumes len: "length payload = 256 * unat hi + unat lo" and nonempty: "payload \<noteq> []"
  shows "verify_received_frame (0x7E # hi # lo # payload @ [c]) =
    (uint c = spec_checksum payload, Some (spec_checksum payload), Some (uint c))"
proof -
  let ?frame = "0x7E # hi # lo # payload @ [c]"
  have "int (256 * unat hi + unat lo) = push_bit 8 (uint hi) + uint lo"
    by (simp add: push_bit_eq_mult)
  with len have n: "int (length ?frame) = push_bit 8 (uint (?frame ! 1)) + uint (?frame ! 2) + 4"
    by simp
  have long: "\<not> length ?frame < 5"
    using nonempty by (cases payload) simp_all
  have data: "slice 3 (length ?frame - 1) ?frame = payload"
    by (simp add: slice_def numeral_eq_Suc)
  have "verify_received_frame ?frame =
      (0xFF - (sum_list (map uint payload) AND 0xFF) = uint (last ?frame),
       Some (0xFF - (sum_list (map uint payload) AND 0xFF)), Some (uint (last ?frame)))"
    unfolding verify_received_frame_def Let_def data
    using n long by simp
  then show ?thesis
    by (auto simp: spec_checksum_def)
qed

lemma verify_received_frame_empty_payload:
  "verify_received_frame [0x7E, 0x00, 0x00, c] = (False, None, None)"
  by (simp add: verify_received_frame_def)

lemma frame_loop_skips_noise:
  assumes "START_DELIMITER \<notin> set noise" and "3 < length b"
  shows "frame_loop (noise @ b) = frame_loop b"
  using assms
proof (induction noise)
  case Nil
  then show ?case by simp
next
  case (Cons x noise)
  have "frame_loop ((x # noise) @ b) = frame_loop (noise @ b)"
    using Cons.prems by (subst frame_loop.simps) auto
  with Cons show ?case
    by simp
qed

lemma read_api_frame_complete_frame:
  assumes "uart \<noteq> []"
    and "START_DELIMITER \<notin> set noise"
    and "buffer @ uart = noise @ START_DELIMITER # hi # lo # payload @ c # rest"
    and "length payload = 256 * unat hi + unat lo"
  shows "read_api_frame uart buffer =
      (if uint c = spec_checksum payload then (Some payload, rest) else frame_loop rest)"
proof -
  have "3 < length (START_DELIMITER # hi # lo # payload @ c # rest)"
    by simp
  with assms(2) have "frame_loop (noise @ START_DELIMITER # hi # lo # payload @ c # rest) =
      frame_loop (START_DELIMITER # hi # lo # payload @ c # rest)"
    by (rule frame_loop_skips_noise)
  with assms show ?thesis
    by (simp add: read_api_frame_def frame_loop_complete_frame)
qed

text \<open>
  Claim C1, as stated, fails on two inputs. A call of \<^verbatim>\<open>_read_api_frame\<close> that finds no new
  byte on the UART returns \<open>None\<close> before it looks at the buffer, so a complete frame with a
  matching checksum that is already buffered is not returned by that call. And
  \<^verbatim>\<open>verify_received_frame\<close> refuses every sequence of fewer than five bytes, so it reports the
  frame \<open>7E 00 00 FF\<close>, whose payload is empty and whose checksum matches, as not valid;
  \<^verbatim>\<open>_read_api_frame\<close> returns the empty payload of that frame.
\<close>

theorem buffered_valid_frame_not_returned:
  "uint (0xBE :: byte) = spec_checksum [0x41]
   \<and> read_api_frame [] [0x7E, 0x00, 0x01, 0x41, 0xBE] = (None, [0x7E, 0x00, 0x01, 0x41, 0xBE])
   \<and> uint (0xFF :: byte) = spec_checksum []
   \<and> verify_received_frame [0x7E, 0x00, 0x00, 0xFF] = (False, None, None)
   \<and> read_api_frame [0x7E, 0x00, 0x00, 0xFF] [] = (Some [], [])"
proof -
  have "read_api_frame [0x7E, 0x00, 0x00, 0xFF] [] = (Some [], [])"
    by (simp add: read_api_frame_def START_DELIMITER_def slice_def)
      (subst frame_loop.simps, simp add: START_DELIMITER_def slice_def)
  then show ?thesis
    by (simp add: read_api_frame_def spec_checksum_def verify_received_frame_def)
qed

text \<open>
  Claim C1, amended. In a call of \<^verbatim>\<open>_read_api_frame\<close> that reads at least one new byte: when
  the buffered bytes, after the new bytes are appended, are bytes without a start delimiter,
  then a complete frame (start delimiter \<open>0x7E\<close>, big-endian length, payload of that length,
  trailing byte), then any further bytes, the call returns the payload of that frame and
  leaves the bytes after it in the buffer if the trailing byte equals
  \<open>0xFF - (sum(payload) & 0xFF)\<close>; otherwise the frame is discarded: the call behaves as the
  loop does on the bytes after the frame. When nothing follows the frame, the call returns
  the payload if and only if the checksum matches, and returns \<open>None\<close> with an empty buffer
  when it does not. A call that reads no new byte returns \<open>None\<close> and leaves the buffer as it
  is. \<^verbatim>\<open>verify_received_frame\<close> reports a frame with a payload of at least one byte valid if
  and only if the trailing byte is that checksum, and reports the four-byte frame with an
  empty payload not valid, whatever its trailing byte.
\<close>

theorem read_api_frame_checksum:
  "(uart \<noteq> [] \<and> START_DELIMITER \<notin> set noise
      \<and> buffer @ uart = noise @ START_DELIMITER # hi # lo # payload @ c # rest
      \<and> length payload = 256 * unat hi + unat lo \<longrightarrow>
      read_api_frame uart buffer =
        (if uint c = spec_checksum payload then (Some payload, rest) else frame_loop rest)
      \<and> (rest = [] \<longrightarrow>
          (fst (read_api_frame uart buffer) = Some payload \<longleftrightarrow> uint c = spec_checksum payload)
        \<and> (uint c \<noteq> spec_checksum payload \<longrightarrow> read_api_frame uart buffer = (None, []))))
   \<and> read_api_frame [] buffer = (None, buffer)
   \<and> (length payload = 256 * unat hi + unat lo \<and> payload \<noteq> [] \<longrightarrow>
        verify_received_frame (0x7E # hi # lo # payload @ [c]) =
          (uint c = spec_checksum payload, Some (spec_checksum payload), Some (uint c)))
   \<and> verify_received_frame [0x7E, 0x00, 0x00, c] = (False, None, None)"
proof (intro conjI impI)
  assume a: "uart \<noteq> [] \<and> START_DELIMITER \<notin> set noise
      \<and> buffer @ uart = noise @ START_DELIMITER # hi # lo # payload @ c # rest
      \<and> length payload = 256 * unat hi + unat lo"
  then have run: "read_api_frame uart buffer =
      (if uint c = spec_checksum payload then (Some payload, rest) else frame_loop rest)"
    by (intro read_api_frame_complete_frame [where noise = noise and hi = hi and lo = lo]) simp_all
  then show "read_api_frame uart buffer =
      (if uint c = spec_checksum payload then (Some payload, rest) else frame_loop rest)" .
  {
    assume "rest = []"
    with run show "fst (read_api_frame uart buffer) = Some payload \<longleftrightarrow> uint c = spec_checksum payload"
      by (simp add: frame_loop_Nil)
    assume "uint c \<noteq> spec_checksum payload"
    with run \<open>rest = []\<close> show "read_api_frame uart buffer = (None, [])"
      by (simp add: frame_loop_Nil)
  }
next
  show "read_api_frame [] buffer = (None, buffer)"
    by (simp add: read_api_frame_def)
next
  assume "length payload = 256 * unat hi + unat lo \<and> payload \<noteq> []"
  then show "verify_received_frame (0x7E # hi # lo # payload @ [c]) =
          (uint c = spec_checksum payload, Some (spec_checksum payload), Some (uint c))"
    by (intro verify_received_frame_valid) simp_all
next
  show "verify_received_frame [0x7E, 0x00, 0x00, c] = (False, None, None)"
    by (rule verify_received_frame_empty_payload)
qed

theorem read_api_frame_checksum_witness:
  "read_api_frame [0x00, 0x7E, 0x00, 0x01, 0x41, 0xBE] [0x13] = (Some [0x41], [])
   \<and> read_api_frame [0x41, 0xBF] [0x7E, 0x00, 0x01] = (None, [])
   \<and> verify_received_frame [0x7E, 0x00, 0x01, 0x41, 0xBE] = (True, Some 0xBE, Some 0xBE)
   \<and> verify_received_frame [0x7E, 0x00, 0x01, 0x41, 0xBF] = (False, Some 0xBE, Some 0xBF)"
  using read_api_frame_checksum
      [where uart = "[0x00, 0x7E, 0x00, 0x01, 0x41, 0xBE]" and buffer = "[0x13]"
        and noise = "[0x13, 0x00]" and hi = "0x00" and lo = "0x01" and payload = "[0x41]"
        and c = "0xBE" and rest = "[]"]
    read_api_frame_checksum
      [where uart = "[0x41, 0xBF]" and buffer = "[0x7E, 0x00, 0x01]"
        and noise = "[]" and hi = "0x00" and lo = "0x01" and payload = "[0x41]"
        and c = "0xBF" and rest = "[]"]
  by (simp add: START_DELIMITER_def spec_checksum_def frame_loop_Nil)

subsection \<open>Feeding the decoder in chunks\<close>

lemma frame_loop_unfold:
  "frame_loop buffer =
     (if length buffer \<le> 3 then (None, buffer)
      else if buffer ! 0 \<noteq> START_DELIMITER then frame_loop (tl buffer)
      else if length buffer < total_size buffer then (None, buffer)
      else if \<not> checksum_ok buffer then frame_loop (drop (total_size buffer) buffer)
      else (Some (frame_data_of buffer), drop (total_size buffer) buffer))"
  by (subst frame_loop.simps)
    (simp add: Let_def total_size_def frame_data_of_def checksum_ok_def)

lemma total_size_ge: "4 \<le> total_size buffer"
  by (simp add: total_size_def)

lemma frame_loop_cases [case_names short noise partial bad good]:
  assumes "\<And>b. length b \<le> 3 \<Longrightarrow> P b"
    and "\<And>b. 3 < length b \<Longrightarrow> b ! 0 \<noteq> START_DELIMITER \<Longrightarrow> P (tl b) \<Longrightarrow> P b"
    and "\<And>b. 3 < length b \<Longrightarrow> b ! 0 = START_DELIMITER \<Longrightarrow> length b < total_size b \<Longrightarrow> P b"
    and "\<And>b. 3 < length b \<Longrightarrow> b ! 0 = START_DELIMITER \<Longrightarrow> total_size b \<le> length b \<Longrightarrow>
           \<not> checksum_ok b \<Longrightarrow> P (drop (total_size b) b) \<Longrightarrow> P b"
    and "\<And>b. 3 < length b \<Longrightarrow> b ! 0 = START_DELIMITER \<Longrightarrow> total_size b \<le> length b \<Longrightarrow>
           checksum_ok b \<Longrightarrow> P b"
  shows "P buffer"
proof (induction buffer rule: length_induct)
  case (1 b)
  show ?case
  proof (cases "length b \<le> 3")
    case True
    then show ?thesis by (rule assms(1))
  next
    case False
    then have long: "3 < length b" by simp
    show ?thesis
    proof (cases "b ! 0 = START_DELIMITER")
      case False
      from long have "length (tl b) < length b" by simp
      with 1 have "P (tl b)" by blast
      with long False show ?thesis by (rule assms(2))
    next
      case start: True
      show ?thesis
      proof (cases "length b < total_size b")
        case True
        with long start show ?thesis by (rule assms(3))
      next
        case False
        then have complete: "total_size b \<le> length b" by simp
        show ?thesis
        proof (cases "checksum_ok b")
          case True
          with long start complete show ?thesis by (rule assms(5))
        next
          case False
          from long total_size_ge [of b] have "length (drop (total_size b) b) < length b"
            by simp
          with 1 have "P (drop (total_size b) b)" by blast
          with long start complete False show ?thesis by (rule assms(4))
        qed
      qed
    qed
  qed
qed

lemma total_size_append: "3 \<le> length b \<Longrightarrow> total_size (b @ d) = total_size b"
  by (simp add: total_size_def nth_append)

lemma frame_data_of_append:
  "3 \<le> length b \<Longrightarrow> total_size b \<le> length b \<Longrightarrow> frame_data_of (b @ d) = frame_data_of b"
  by (simp add: frame_data_of_def total_size_append)

lemma checksum_ok_append:
  "3 \<le> length b \<Longrightarrow> total_size b \<le> length b \<Longrightarrow> checksum_ok (b @ d) = checksum_ok b"
  by (simp add: checksum_ok_def frame_data_of_append total_size_append)

text \<open>More input never changes what a run has already decided.\<close>

lemma frame_loop_append:
  "frame_loop (b @ d) =
     (case frame_loop b of
        (None, b') \<Rightarrow> frame_loop (b' @ d)
      | (Some f, b') \<Rightarrow> (Some f, b' @ d))"
proof (induction b rule: frame_loop_cases)
  case (short b)
  then show ?case
    by (simp add: frame_loop_unfold [of b])
next
  case (noise b)
  then have "frame_loop (b @ d) = frame_loop (tl b @ d)"
    by (subst frame_loop_unfold) (auto simp: nth_append)
  with noise show ?case
    by (simp add: frame_loop_unfold [of b])
next
  case (partial b)
  then show ?case
    by (simp add: frame_loop_unfold [of b])
next
  case (bad b)
  then have "frame_loop (b @ d) = frame_loop (drop (total_size b) b @ d)"
    by (subst frame_loop_unfold)
      (auto simp: nth_append total_size_append checksum_ok_append)
  with bad show ?case
    by (simp add: frame_loop_unfold [of b])
next
  case (good b)
  then have "frame_loop (b @ d) = (Some (frame_data_of b), drop (total_size b) b @ d)"
    by (subst frame_loop_unfold)
      (auto simp: nth_append total_size_append checksum_ok_append frame_data_of_append)
  with good show ?case
    by (simp add: frame_loop_unfold [of b])
qed

lemma frame_loop_stuck: "stuck b \<Longrightarrow> frame_loop b = (None, b)"
  by (auto simp: stuck_def frame_loop_unfold [of b])

lemma frame_loop_None_stuck: "frame_loop b = (None, b') \<Longrightarrow> stuck b'"
proof (induction b rule: frame_loop_cases)
  case (short b)
  then show ?case by (simp add: frame_loop_unfold [of b] stuck_def)
next
  case (noise b)
  then show ?case by (simp add: frame_loop_unfold [of b])
next
  case (partial b)
  then show ?case by (auto simp: frame_loop_unfold [of b] stuck_def)
next
  case (bad b)
  then show ?case by (simp add: frame_loop_unfold [of b])
next
  case (good b)
  then show ?case by (simp add: frame_loop_unfold [of b])
qed

lemma frame_loop_Some_length:
  "frame_loop b = (Some f, b') \<Longrightarrow> length b' + 4 \<le> length b"
proof (induction b rule: frame_loop_cases)
  case (short b)
  then show ?case by (simp add: frame_loop_unfold [of b])
next
  case (noise b)
  then show ?case by (simp add: frame_loop_unfold [of b])
next
  case (partial b)
  then show ?case by (simp add: frame_loop_unfold [of b])
next
  case (bad b)
  then show ?case by (simp add: frame_loop_unfold [of b])
next
  case (good b)
  with total_size_ge [of b] show ?case by (auto simp: frame_loop_unfold [of b])
qed

lemma frame_loop_partial:
  "3 < length b \<Longrightarrow> b ! 0 = START_DELIMITER \<Longrightarrow> length b < total_size b \<Longrightarrow>
   frame_loop b = (None, b)"
  by (simp add: frame_loop_unfold [of b])

lemma frame_loop_good:
  "3 < length b \<Longrightarrow> b ! 0 = START_DELIMITER \<Longrightarrow> total_size b \<le> length b \<Longrightarrow> checksum_ok b \<Longrightarrow>
   frame_loop b = (Some (frame_data_of b), drop (total_size b) b)"
  by (simp add: frame_loop_unfold [of b])

lemma frame_loop_bad:
  "3 < length b \<Longrightarrow> b ! 0 = START_DELIMITER \<Longrightarrow> total_size b \<le> length b \<Longrightarrow> \<not> checksum_ok b \<Longrightarrow>
   frame_loop b = frame_loop (drop (total_size b) b)"
  by (simp add: frame_loop_unfold [of b])

lemma stuck_one_more_byte:
  assumes "stuck b" and "frame_loop (b @ [x]) = (Some f, b')"
  shows "b' = []"
proof (cases "length b \<le> 3")
  case True
  have "length (b @ [x]) = length b + 1"
    by simp
  with True frame_loop_Some_length [OF assms(2)] have "length b' = 0"
    by linarith
  then show ?thesis
    by simp
next
  case False
  with assms(1) have long: "3 < length b" and start: "b ! 0 = START_DELIMITER"
    and partial: "length b < total_size b"
    by (simp_all add: stuck_def)
  from long have size: "total_size (b @ [x]) = total_size b"
    by (simp add: total_size_append)
  from long start have first: "(b @ [x]) ! 0 = START_DELIMITER"
    by (cases b) simp_all
  from long have longer: "3 < length (b @ [x])"
    by simp
  show ?thesis
  proof (cases "length b + 1 < total_size b")
    case True
    with size have "length (b @ [x]) < total_size (b @ [x])"
      by simp
    with longer first have "frame_loop (b @ [x]) = (None, b @ [x])"
      by (rule frame_loop_partial)
    with assms(2) show ?thesis by simp
  next
    case False
    with partial size have exact: "total_size (b @ [x]) = length (b @ [x])" by simp
    then have rest: "drop (total_size (b @ [x])) (b @ [x]) = []"
      and complete: "total_size (b @ [x]) \<le> length (b @ [x])"
      by simp_all
    show ?thesis
    proof (cases "checksum_ok (b @ [x])")
      case True
      with longer first complete
      have "frame_loop (b @ [x]) = (Some (frame_data_of (b @ [x])), drop (total_size (b @ [x])) (b @ [x]))"
        by (rule frame_loop_good)
      with assms(2) rest show ?thesis
        by simp
    next
      case False
      with longer first complete
      have "frame_loop (b @ [x]) = frame_loop (drop (total_size (b @ [x])) (b @ [x]))"
        by (rule frame_loop_bad)
      with assms(2) rest show ?thesis
        by (simp add: frame_loop_unfold [of "[]"])
    qed
  qed
qed

lemma decode_all_cong: "frame_loop b = frame_loop c \<Longrightarrow> decode_all b = decode_all c"
  by (simp add: decode_all.simps [of b] decode_all.simps [of c])

lemma feed_bytewise_stuck:
  "stuck b \<Longrightarrow> feed (map (\<lambda>x. [x]) bs) b = decode_all (b @ bs)"
proof (induction bs arbitrary: b)
  case Nil
  then show ?case
    by (simp add: decode_all.simps [of b] frame_loop_stuck)
next
  case (Cons x xs)
  obtain r b' where run: "frame_loop (b @ [x]) = (r, b')"
    by (cases "frame_loop (b @ [x])")
  show ?case
  proof (cases r)
    case None
    with run have "stuck b'"
      by (auto dest: frame_loop_None_stuck)
    then have "feed (map (\<lambda>x. [x]) xs) b' = decode_all (b' @ xs)"
      by (rule Cons.IH)
    moreover have "frame_loop (b @ x # xs) = frame_loop (b' @ xs)"
      using frame_loop_append [of "b @ [x]" xs] run None by simp
    then have "decode_all (b @ x # xs) = decode_all (b' @ xs)"
      by (rule decode_all_cong)
    ultimately show ?thesis
      using run None by (simp add: read_api_frame_def)
  next
    case (Some f)
    with run Cons.prems have empty: "b' = []"
      by (auto dest: stuck_one_more_byte)
    then have "stuck b'"
      by (simp add: stuck_def)
    then have "feed (map (\<lambda>x. [x]) xs) b' = decode_all (b' @ xs)"
      by (rule Cons.IH)
    moreover have "frame_loop (b @ x # xs) = (Some f, b' @ xs)"
      using frame_loop_append [of "b @ [x]" xs] run Some by simp
    then have "decode_all (b @ x # xs) = f # decode_all (b' @ xs)"
      by (simp add: decode_all.simps [of "b @ x # xs"])
    ultimately show ?thesis
      using run Some by (simp add: read_api_frame_def)
  qed
qed

lemma feed_at_once_first:
  "feed_at_once bs = take 1 (decode_all bs)"
proof (cases "bs = []")
  case True
  then show ?thesis
    by (simp add: feed_at_once_def read_api_frame_def decode_all.simps [of "[]"]
        frame_loop_unfold [of "[]"])
next
  case False
  then show ?thesis
    by (cases "frame_loop bs")
      (auto simp: feed_at_once_def read_api_frame_def decode_all.simps [of bs] split: option.splits)
qed

text \<open>
  However the bytes are cut into chunks, the frames the calls return and the frames the loop
  still finds in the buffer afterwards are together the frames of the whole sequence.
\<close>

lemma feed_any_chunks:
  "decode_all (b @ concat chunks) = feed chunks b @ decode_all (feed_buffer chunks b)"
proof (induction chunks arbitrary: b)
  case Nil
  then show ?case by simp
next
  case (Cons chunk chunks)
  show ?case
  proof (cases "chunk = []")
    case True
    with Cons.IH [of b] show ?thesis
      by (simp add: read_api_frame_def)
  next
    case False
    obtain r b' where run: "frame_loop (b @ chunk) = (r, b')"
      by (cases "frame_loop (b @ chunk)")
    have whole: "frame_loop (b @ chunk @ concat chunks) =
        (case r of None \<Rightarrow> frame_loop (b' @ concat chunks) | Some f \<Rightarrow> (Some f, b' @ concat chunks))"
      using frame_loop_append [of "b @ chunk" "concat chunks"] run
      by (simp split: option.splits)
    show ?thesis
    proof (cases r)
      case None
      with whole have "decode_all (b @ chunk @ concat chunks) = decode_all (b' @ concat chunks)"
        by (auto intro: decode_all_cong)
      with None False run Cons.IH [of b'] show ?thesis
        by (simp add: read_api_frame_def)
    next
      case (Some f)
      with whole have "decode_all (b @ chunk @ concat chunks) = f # decode_all (b' @ concat chunks)"
        by (simp add: decode_all.simps [of "b @ chunk @ concat chunks"])
      with Some False run Cons.IH [of b'] show ?thesis
        by (simp add: read_api_frame_def)
    qed
  qed
qed

lemma feed_no_data: "feed (replicate k []) buffer = []"
  by (induction k) (simp_all add: read_api_frame_def)

lemma feed_then_poll: "feed (bs # replicate k []) [] = take 1 (decode_all bs)"
proof -
  have "feed (bs # replicate k []) [] = feed [bs] []"
    by (simp add: feed_no_data split: prod.splits option.splits)
  also have "\<dots> = take 1 (decode_all bs)"
    using feed_at_once_first [of bs] by (simp only: feed_at_once_def)
  finally show ?thesis .
qed

text \<open>
  Claim C2, as stated, fails: a call of \<^verbatim>\<open>_read_api_frame\<close> returns at most one frame. Two
  frames fed byte by byte are both returned, each by the call that brings its last byte;
  fed at once, the call returns the first and leaves the second in the buffer, where later
  calls that find no new byte on the UART do not look.
\<close>

theorem chunking_changes_frames:
  "feed_bytewise [0x7E, 0x00, 0x01, 0x41, 0xBE, 0x7E, 0x00, 0x01, 0x42, 0xBD] = [[0x41], [0x42]]
   \<and> feed_at_once [0x7E, 0x00, 0x01, 0x41, 0xBE, 0x7E, 0x00, 0x01, 0x42, 0xBD] = [[0x41]]
   \<and> feed [[0x7E, 0x00, 0x01, 0x41, 0xBE, 0x7E, 0x00, 0x01, 0x42, 0xBD], [], []] [] = [[0x41]]"
  by code_simp

text \<open>
  Claim C2, amended. For every byte sequence, feeding it one byte at a time from an empty
  buffer returns exactly the frames that running the decoding loop over the whole sequence,
  again and again until it returns no frame, takes out of it, in the same order. Feeding
  the sequence at once returns the first of these frames only, also when further calls
  follow that find no new bytes. For every cutting of the sequence into chunks, the frames
  the calls return, followed by the frames the loop still finds in the buffer they leave,
  are the frames of the whole sequence: the cursor persists and no frame is lost.
\<close>

theorem bytewise_feed_decodes_all:
  "feed_bytewise bs = decode_all bs
   \<and> feed_at_once bs = take 1 (decode_all bs)
   \<and> feed (bs # replicate k []) [] = take 1 (decode_all bs)
   \<and> feed chunks [] @ decode_all (feed_buffer chunks []) = decode_all (concat chunks)"
  using feed_bytewise_stuck [of "[]" bs] feed_at_once_first [of bs] feed_then_poll [of bs k]
    feed_any_chunks [of "[]" chunks]
  by (simp add: feed_bytewise_def stuck_def)

subsection \<open>The forwarder\<close>

lemma client_after_send_data:
  "client_after (send_data self t outcome t') =
     (if succeeded outcome then self\<lparr>last_update_time := t'\<rparr> else self)"
  by (cases outcome) (simp_all add: send_data_def Let_def)

lemma send_all_last_success:
  "send_all self attempts =
     (if success_times attempts = [] then self
      else self\<lparr>last_update_time := last (success_times attempts)\<rparr>)"
proof (induction attempts arbitrary: self)
  case Nil
  then show ?case by (simp add: success_times_def)
next
  case (Cons a attempts)
  obtain t outcome t' where a: "a = (t, outcome, t')"
    by (cases a)
  show ?case
    unfolding a
    by (simp add: Cons.IH client_after_send_data success_times_def)
qed

text \<open>
  Claim C7, as stated, fails in its last part: the time stamp is advanced by every response
  that is not equal to 0, not only by a success signal. A negative response, which the sink's
  contract lists among the failure signals, and the text \<^verbatim>\<open>0\<close> both advance it.
\<close>

theorem failure_reply_advances_clock:
  "last_update_time
     (client_after (send_data (thingspeak_client_init\<lparr>last_update_time := 100\<rparr>) 130
        (UpdateReturns (- 1)) 131)) = 131
   \<and> returned (send_data (thingspeak_client_init\<lparr>last_update_time := 100\<rparr>) 130
        (UpdateReturns (- 1)) 131) = Some (NumberReply (- 1))
   \<and> last_update_time
     (client_after (send_data (thingspeak_client_init\<lparr>last_update_time := 100\<rparr>) 130
        (UpdateReturnsText ''0'') 131)) = 131"
  by (simp add: send_data_def thingspeak_client_init_def)

text \<open>
  Claim C7, amended. A call of \<^verbatim>\<open>send_data\<close> whose update raises or returns the number 0
  leaves the client, and so its last update time, exactly as it was, and returns \<open>None\<close>;
  the call that follows it sleeps exactly as it would have without it. Every other
  response, a positive or a negative number, a text or another object, sets the last update
  time to the clock reading taken after the response and is returned; and the last update
  time changes only in this way. After any series of calls the last update time is the
  reading taken after the last call whose response was not equal to 0, or the initial value
  when there was none.
\<close>

theorem send_data_failure_keeps_last_update_time:
  "(outcome = UpdateRaises \<or> outcome = UpdateReturns 0 \<longrightarrow>
      client_after (send_data self current_time outcome time_after) = self
      \<and> returned (send_data self current_time outcome time_after) = None
      \<and> slept (send_data (client_after (send_data self current_time outcome time_after))
            next_time next_outcome next_after)
          = slept (send_data self next_time next_outcome next_after))
   \<and> (outcome \<noteq> UpdateRaises \<and> outcome \<noteq> UpdateReturns 0 \<longrightarrow>
      last_update_time (client_after (send_data self current_time outcome time_after)) = time_after
      \<and> returned (send_data self current_time outcome time_after) =
          Some (case outcome of
                  UpdateReturns r \<Rightarrow> NumberReply r
                | UpdateReturnsText r \<Rightarrow> TextReply r
                | _ \<Rightarrow> ObjectReply))
   \<and> (last_update_time (client_after (send_data self current_time outcome time_after))
        \<noteq> last_update_time self \<longrightarrow> outcome \<noteq> UpdateRaises \<and> outcome \<noteq> UpdateReturns 0)
   \<and> (succeeded outcome \<longleftrightarrow> outcome \<noteq> UpdateRaises \<and> outcome \<noteq> UpdateReturns 0)
   \<and> send_all self attempts =
       (if success_times attempts = [] then self
        else self\<lparr>last_update_time := last (success_times attempts)\<rparr>)"
proof -
  have failed: "succeeded outcome \<longleftrightarrow> outcome \<noteq> UpdateRaises \<and> outcome \<noteq> UpdateReturns 0"
    by (cases outcome) simp_all
  have kept: "client_after (send_data self current_time outcome time_after) = self"
    if "outcome = UpdateRaises \<or> outcome = UpdateReturns 0"
  proof -
    from that failed have "\<not> succeeded outcome"
      by blast
    then show ?thesis
      by (simp add: client_after_send_data)
  qed
  have none: "returned (send_data self current_time outcome time_after) = None"
    if "outcome = UpdateRaises \<or> outcome = UpdateReturns 0"
    using that by (cases outcome) (simp_all add: send_data_def Let_def)
  have advanced:
    "last_update_time (client_after (send_data self current_time outcome time_after)) = time_after"
    if "outcome \<noteq> UpdateRaises \<and> outcome \<noteq> UpdateReturns 0"
  proof -
    from that failed have "succeeded outcome"
      by blast
    then show ?thesis
      by (simp add: client_after_send_data)
  qed
  have reply:
    "returned (send_data self current_time outcome time_after) =
       Some (case outcome of
               UpdateReturns r \<Rightarrow> NumberReply r
             | UpdateReturnsText r \<Rightarrow> TextReply r
             | _ \<Rightarrow> ObjectReply)"
    if "outcome \<noteq> UpdateRaises \<and> outcome \<noteq> UpdateReturns 0"
    using that by (cases outcome) (simp_all add: send_data_def Let_def)
  have only:
    "outcome \<noteq> UpdateRaises \<and> outcome \<noteq> UpdateReturns 0"
    if "last_update_time (client_after (send_data self current_time outcome time_after))
          \<noteq> last_update_time self"
  proof (rule ccontr)
    assume "\<not> (outcome \<noteq> UpdateRaises \<and> outcome \<noteq> UpdateReturns 0)"
    then have "client_after (send_data self current_time outcome time_after) = self"
      using kept by blast
    with that show False
      by simp
  qed
  show ?thesis
  proof (intro conjI impI)
    assume f: "outcome = UpdateRaises \<or> outcome = UpdateReturns 0"
    show "client_after (send_data self current_time outcome time_after) = self"
      by (rule kept [OF f])
    show "returned (send_data self current_time outcome time_after) = None"
      by (rule none [OF f])
    show "slept (send_data (client_after (send_data self current_time outcome time_after))
            next_time next_outcome next_after)
          = slept (send_data self next_time next_outcome next_after)"
      by (simp only: kept [OF f])
  next
    assume g: "outcome \<noteq> UpdateRaises \<and> outcome \<noteq> UpdateReturns 0"
    show "last_update_time (client_after (send_data self current_time outcome time_after)) = time_after"
      by (rule advanced [OF g])
    show "returned (send_data self current_time outcome time_after) =
       Some (case outcome of
               UpdateReturns r \<Rightarrow> NumberReply r
             | UpdateReturnsText r \<Rightarrow> TextReply r
             | _ \<Rightarrow> ObjectReply)"
      by (rule reply [OF g])
  next
    assume h: "last_update_time (client_after (send_data self current_time outcome time_after))
          \<noteq> last_update_time self"
    show "outcome \<noteq> UpdateRaises"
      using only [OF h] by blast
    show "outcome \<noteq> UpdateReturns 0"
      using only [OF h] by blast
  next
    show "succeeded outcome \<longleftrightarrow> outcome \<noteq> UpdateRaises \<and> outcome \<noteq> UpdateReturns 0"
      by (rule failed)
  next
    show "send_all self attempts =
       (if success_times attempts = [] then self
        else self\<lparr>last_update_time := last (success_times attempts)\<rparr>)"
      by (rule send_all_last_success)
  qed
qed

theorem send_data_failure_keeps_last_update_time_witness:
  "client_after (send_data (thingspeak_client_init\<lparr>last_update_time := 100\<rparr>) 130 (UpdateReturns 0) 131)
     = thingspeak_client_init\<lparr>last_update_time := 100\<rparr>
   \<and> client_after (send_data (thingspeak_client_init\<lparr>last_update_time := 100\<rparr>) 130 UpdateRaises 131)
     = thingspeak_client_init\<lparr>last_update_time := 100\<rparr>
   \<and> last_update_time
       (client_after (send_data (thingspeak_client_init\<lparr>last_update_time := 100\<rparr>) 130 (UpdateReturns 7) 131))
     = 131"
  using send_data_failure_keeps_last_update_time
      [where outcome = "UpdateReturns 0" and self = "thingspeak_client_init\<lparr>last_update_time := 100\<rparr>"
        and current_time = 130 and time_after = 131]
    send_data_failure_keeps_last_update_time
      [where outcome = UpdateRaises and self = "thingspeak_client_init\<lparr>last_update_time := 100\<rparr>"
        and current_time = 130 and time_after = 131]
    send_data_failure_keeps_last_update_time
      [where outcome = "UpdateReturns 7" and self = "thingspeak_client_init\<lparr>last_update_time := 100\<rparr>"
        and current_time = 130 and time_after = 131]
  by simp

text \<open>
  Claim C9, as the specification states it, fails: the client is created with a minimum
  interval of 20 seconds, while the flush test uses 15 seconds. A batch that is flushed 15
  seconds after a successful send therefore still waits 5 seconds in \<^verbatim>\<open>send_data\<close>.
\<close>

theorem min_interval_is_not_flush_interval:
  "min_interval thingspeak_client_init \<noteq> 15
   \<and> flush_due 15 0 [Reading (Finite 26) (Finite 28) (Finite 400) (Finite 78.8)]
   \<and> slept (send_data thingspeak_client_init 15 (UpdateReturns 1) 20) = Some 5"
  by (simp add: thingspeak_client_init_def flush_due_def send_data_def)

text \<open>
  Claim C9, amended. The client's minimum interval is 20 seconds and the flush test asks for
  at least 15 seconds and a non-empty batch. Before the update, \<^verbatim>\<open>send_data\<close> sleeps if and
  only if less than the minimum interval has passed since the last update time, and then
  for exactly the remaining time: the sleep ends one minimum interval after the last update.
\<close>

theorem send_data_waits_remaining_time:
  "min_interval thingspeak_client_init = 20
   \<and> (flush_due current_time last_upload_time data_buffer \<longleftrightarrow>
        15 \<le> current_time - last_upload_time \<and> data_buffer \<noteq> [])
   \<and> slept (send_data self current_time outcome time_after) =
       (if current_time - last_update_time self < min_interval self
        then Some (min_interval self - (current_time - last_update_time self)) else None)
   \<and> (\<forall>w. slept (send_data self current_time outcome time_after) = Some w \<longrightarrow>
        0 < w \<and> current_time + w - last_update_time self = min_interval self)"
  by (cases outcome) (auto simp: send_data_def Let_def thingspeak_client_init_def flush_due_def)

theorem send_data_waits_remaining_time_witness:
  "slept (send_data (thingspeak_client_init\<lparr>last_update_time := 100\<rparr>) 112 (UpdateReturns 1) 121) = Some 8
   \<and> (112 :: real) + 8 - 100 = 20"
  using send_data_waits_remaining_time
      [of 112 100 "[]" "thingspeak_client_init\<lparr>last_update_time := 100\<rparr>" "UpdateReturns 1" 121]
  by (auto simp: thingspeak_client_init_def)

subsection \<open>The queue between the callback and the upload thread\<close>












subsection \<open>Unescaping\<close>

text \<open>The index loop computes the recursive description, from any position.\<close>

lemma unescape_loop_spec:
  "i \<le> length bs \<Longrightarrow> unescape_loop bs i result = result @ unescape_spec (drop i bs)"
proof (induction bs i result rule: unescape_loop.induct)
  case (1 bs i result)
  show ?case
  proof (cases "i < length bs")
    case False
    with "1.prems" show ?thesis
      by (subst unescape_loop.simps) simp
  next
    case inside: True
    then have here: "drop i bs = bs ! i # drop (Suc i) bs"
      by (simp add: Cons_nth_drop_Suc)
    show ?thesis
    proof (cases "bs ! i = ESCAPE")
      case False
      with inside "1.IH"(3) have "unescape_loop bs (i + 1) (result @ [bs ! i])
          = (result @ [bs ! i]) @ unescape_spec (drop (i + 1) bs)"
        by simp
      moreover have "unescape_spec (drop i bs) = bs ! i # unescape_spec (drop (i + 1) bs)"
        using False here by (cases "drop (Suc i) bs") (simp_all add: ESCAPE_def)
      ultimately show ?thesis
        using inside False by (subst unescape_loop.simps) simp
    next
      case esc: True
      show ?thesis
      proof (cases "i + 1 < length bs")
        case False
        with inside have "drop (Suc i) bs = []"
          by simp
        with here esc have "unescape_spec (drop i bs) = []"
          by (simp add: ESCAPE_def)
        moreover from inside esc False "1.IH"(2)
        have "unescape_loop bs (i + 1) result = result @ unescape_spec (drop (i + 1) bs)"
          by simp
        ultimately show ?thesis
          using inside esc False by (subst unescape_loop.simps) simp
      next
        case True
        then have next_byte: "drop (Suc i) bs = bs ! (i + 1) # drop (i + 2) bs"
          by (simp add: Cons_nth_drop_Suc)
        from inside esc True "1.IH"(1)
        have "unescape_loop bs (i + 2) (result @ [bs ! (i + 1) XOR 0x20])
            = (result @ [bs ! (i + 1) XOR 0x20]) @ unescape_spec (drop (i + 2) bs)"
          by simp
        moreover have "unescape_spec (drop i bs)
            = (bs ! (i + 1) XOR 0x20) # unescape_spec (drop (i + 2) bs)"
          using here next_byte esc by (simp add: ESCAPE_def)
        ultimately show ?thesis
          using inside esc True by (subst unescape_loop.simps) simp
      qed
    qed
  qed
qed

lemma unescape_data_spec: "unescape_data bs = unescape_spec bs"
  by (simp add: unescape_data_def unescape_loop_spec)

lemma unescape_spec_dangling:
  "ends_in_escape bs \<Longrightarrow> unescape_spec bs = unescape_spec (butlast bs) \<and> last bs = 0x7D"
  by (induction bs rule: unescape_spec.induct) (auto split: if_splits)

text \<open>
  Claim C8, as stated, fails in its second half: a payload that ends in a lone escape byte
  is not discarded. \<^verbatim>\<open>_unescape_data\<close> skips the lone escape byte and returns the bytes
  before it, unescaped.
\<close>

theorem lone_escape_is_not_discarded:
  "ends_in_escape [0x41, 0x7D] \<and> unescape_data [0x41, 0x7D] = [0x41]"
  by code_simp

text \<open>
  Claim C8, amended. \<^verbatim>\<open>_unescape_data\<close> replaces each escape byte \<open>0x7D\<close> and the byte \<open>b\<close>
  after it by the single byte \<open>b XOR 0x20\<close> and copies every other byte; an escape byte that
  ends the payload with no byte after it is dropped, and the result is the unescaped rest.
\<close>

theorem unescape_data_escapes:
  "unescape_data bs = unescape_spec bs
   \<and> unescape_data [] = []
   \<and> (x \<noteq> 0x7D \<longrightarrow> unescape_data (x # rest) = x # unescape_data rest)
   \<and> unescape_data (0x7D # b # rest) = (b XOR 0x20) # unescape_data rest
   \<and> unescape_data [0x7D] = []
   \<and> (ends_in_escape bs \<longrightarrow> last bs = 0x7D \<and> unescape_data bs = unescape_data (butlast bs))"
proof -
  have "x \<noteq> 0x7D \<longrightarrow> unescape_spec (x # rest) = x # unescape_spec rest"
    by (cases rest) simp_all
  then show ?thesis
    using unescape_spec_dangling [of bs] by (simp add: unescape_data_spec)
qed

theorem unescape_data_escapes_witness:
  "unescape_data [0x7D, 0x5E, 0x41, 0x7D, 0x5D, 0x7D] = [0x7E, 0x41, 0x7D]
   \<and> unescape_data [0x7D, 0x5E, 0x41, 0x7D, 0x5D, 0x7D] = unescape_data [0x7D, 0x5E, 0x41, 0x7D, 0x5D]"
proof -
  have "ends_in_escape [0x7D, 0x5E, 0x41, 0x7D, 0x5D, 0x7D]"
    by simp
  with unescape_data_escapes [of "[0x7D, 0x5E, 0x41, 0x7D, 0x5D, 0x7D]"]
  show ?thesis
    by simp
qed

subsection \<open>The payload extractor\<close>

lemma utf8_wellformed_ascii: "\<forall>b \<in> set bs. b < 0x80 \<Longrightarrow> utf8_wellformed bs"
  by (induction bs) simp_all

lemma decode_utf8_ascii:
  "\<forall>b \<in> set rf. b < 0x80 \<Longrightarrow> decode_utf8 rf = Some (map (\<lambda>b. char_of (unat b)) rf)"
  unfolding decode_utf8_def
  using utf8_wellformed_ascii [of "map unat rf"]
  by (auto simp: word_less_nat_alt)

lemma drop_header:
  "length hdr = n \<Longrightarrow> drop (Suc n) (tag # hdr @ rf) = rf"
  by simp

text \<open>
  Claim C6, as stated, fails. For the 16-bit variant the specification's header is the tag,
  a 2-byte address and one status byte, so the application data of
  \<open>81 00 01 28 41 42\<close> would be \<open>41 42\<close>; the source skips five bytes (tag, address, RSSI,
  options) and returns \<open>B\<close>. A payload that is exactly as long as the specification's header
  is refused by the source. Application data that is not UTF-8 is not returned either.
\<close>

theorem header_widths_differ:
  "spec_extract [0x81, 0x00, 0x01, 0x28, 0x41, 0x42] = Some [0x41, 0x42]
   \<and> process_rx_packet [0x81, 0x00, 0x01, 0x28, 0x41, 0x42] = Some ''B''
   \<and> spec_extract [0x81, 0x00, 0x01, 0x28] = Some []
   \<and> process_rx_packet [0x81, 0x00, 0x01, 0x28] = None
   \<and> spec_extract [0x90, 0, 0x13, 0xA2, 0, 0x42, 1, 9, 0x17, 0xFF, 0xFE, 1, 0xFF] = Some [0xFF]
   \<and> process_rx_packet [0x90, 0, 0x13, 0xA2, 0, 0x42, 1, 9, 0x17, 0xFF, 0xFE, 1, 0xFF] = None"
  by code_simp

text \<open>
  Claim C6, amended. \<^verbatim>\<open>_process_rx_packet\<close> dispatches on the first payload byte and returns
  the bytes after the header, decoded as UTF-8: after the tag, an 8-byte address, an RSSI
  byte and an options byte for the 64-bit variant \<open>0x80\<close>; after the tag, a 2-byte address, an
  RSSI byte and an options byte for the 16-bit variant \<open>0x81\<close>; after the tag, an 8-byte
  address, a 2-byte network address and an options byte for the generic variant \<open>0x90\<close>. A
  payload shorter than that header (11, 5 and 12 bytes), an empty payload and a payload with
  another tag give \<open>None\<close>. Decoding gives the same bytes as text when they are well-formed
  UTF-8, as all ASCII bytes are, and \<open>None\<close> otherwise.
\<close>

theorem process_rx_packet_headers:
  "(length addr64 = 8 \<longrightarrow>
      process_rx_packet (0x80 # addr64 @ [rssi, opts] @ rf) = decode_utf8 rf)
   \<and> (length addr16 = 2 \<longrightarrow>
      process_rx_packet (0x81 # addr16 @ [rssi, opts] @ rf) = decode_utf8 rf)
   \<and> (length addr64 = 8 \<and> length addr16 = 2 \<longrightarrow>
      process_rx_packet (0x90 # addr64 @ addr16 @ [opts] @ rf) = decode_utf8 rf)
   \<and> (length rest < 10 \<longrightarrow> process_rx_packet (0x80 # rest) = None)
   \<and> (length rest < 4 \<longrightarrow> process_rx_packet (0x81 # rest) = None)
   \<and> (length rest < 11 \<longrightarrow> process_rx_packet (0x90 # rest) = None)
   \<and> (tag \<noteq> 0x80 \<and> tag \<noteq> 0x81 \<and> tag \<noteq> 0x90 \<longrightarrow> process_rx_packet (tag # rest) = None)
   \<and> process_rx_packet [] = None
   \<and> (decode_utf8 rf = (if utf8_wellformed (map unat rf)
         then Some (map (\<lambda>b. char_of (unat b)) rf) else None))
   \<and> ((\<forall>b \<in> set rf. b < 0x80) \<longrightarrow> decode_utf8 rf = Some (map (\<lambda>b. char_of (unat b)) rf))"
proof -
  have h80: "process_rx_packet (0x80 # addr64 @ [rssi, opts] @ rf) = decode_utf8 rf"
    if "length addr64 = 8"
  proof -
    have "drop 11 (0x80 # addr64 @ [rssi, opts] @ rf) = rf"
      using that drop_header [of "addr64 @ [rssi, opts]" 10 "0x80" rf] by simp
    with that show ?thesis
      by (simp add: process_rx_packet_def RX_PACKET_def RX_PACKET_16_def RX_PACKET_64_def)
  qed
  have h81: "process_rx_packet (0x81 # addr16 @ [rssi, opts] @ rf) = decode_utf8 rf"
    if "length addr16 = 2"
  proof -
    have "drop 5 (0x81 # addr16 @ [rssi, opts] @ rf) = rf"
      using that drop_header [of "addr16 @ [rssi, opts]" 4 "0x81" rf] by simp
    with that show ?thesis
      by (simp add: process_rx_packet_def RX_PACKET_def RX_PACKET_16_def RX_PACKET_64_def)
  qed
  have h90: "process_rx_packet (0x90 # addr64 @ addr16 @ [opts] @ rf) = decode_utf8 rf"
    if "length addr64 = 8" "length addr16 = 2"
  proof -
    have "drop 12 (0x90 # addr64 @ addr16 @ [opts] @ rf) = rf"
      using that drop_header [of "addr64 @ addr16 @ [opts]" 11 "0x90" rf] by simp
    with that show ?thesis
      by (simp add: process_rx_packet_def RX_PACKET_def RX_PACKET_16_def RX_PACKET_64_def)
  qed
  have short: "length rest < 10 \<longrightarrow> process_rx_packet (0x80 # rest) = None"
    "length rest < 4 \<longrightarrow> process_rx_packet (0x81 # rest) = None"
    "length rest < 11 \<longrightarrow> process_rx_packet (0x90 # rest) = None"
    "tag \<noteq> 0x80 \<and> tag \<noteq> 0x81 \<and> tag \<noteq> 0x90 \<longrightarrow> process_rx_packet (tag # rest) = None"
    "process_rx_packet [] = None"
    by (simp_all add: process_rx_packet_def RX_PACKET_def RX_PACKET_16_def RX_PACKET_64_def)
  show ?thesis
    using h80 h81 h90 short decode_utf8_ascii [of rf]
    by (simp add: decode_utf8_def)
qed

theorem process_rx_packet_headers_witness:
  "process_rx_packet
     (0x90 # [0x00, 0x13, 0xA2, 0x00, 0x42, 0x01, 0x09, 0x17] @ [0xFF, 0xFE] @ [0x01]
        @ [0x44, 0x41, 0x54, 0x41]) = Some ''DATA''
   \<and> process_rx_packet (0x81 # [0x00, 0x01] @ [0x28, 0x00] @ [0x42]) = Some ''B''
   \<and> process_rx_packet
     (0x80 # [0x00, 0x13, 0xA2, 0x00, 0x42, 0x01, 0x09, 0x17] @ [0x28, 0x00] @ [0x42]) = Some ''B''
   \<and> process_rx_packet (0x81 # [0x00, 0x01, 0x28]) = None"
proof -
  have ascii: "\<forall>b \<in> set [0x44, 0x41, 0x54, 0x41 :: byte]. b < 0x80" "\<forall>b \<in> set [0x42 :: byte]. b < 0x80"
    by simp_all
  have len: "length [0x00, 0x13, 0xA2, 0x00, 0x42, 0x01, 0x09, 0x17 :: byte] = 8"
    "length [0xFF, 0xFE :: byte] = 2" "length [0x00, 0x01 :: byte] = 2"
    "length [0x00, 0x01, 0x28 :: byte] < 4"
    by simp_all
  have chars: "char_of (68 :: nat) = CHR ''D''" "char_of (65 :: nat) = CHR ''A''"
    "char_of (84 :: nat) = CHR ''T''" "char_of (66 :: nat) = CHR ''B''"
    by code_simp+
  from process_rx_packet_headers
      [where ?addr64.0 = "[0x00, 0x13, 0xA2, 0x00, 0x42, 0x01, 0x09, 0x17]"
        and ?addr16.0 = "[0xFF, 0xFE]" and rssi = "0x28" and opts = "0x01"
        and rf = "[0x44, 0x41, 0x54, 0x41]" and rest = "[0x00, 0x01, 0x28]" and tag = "0x00"]
    process_rx_packet_headers
      [where ?addr64.0 = "[0x00, 0x13, 0xA2, 0x00, 0x42, 0x01, 0x09, 0x17]"
        and ?addr16.0 = "[0x00, 0x01]" and rssi = "0x28" and opts = "0x00"
        and rf = "[0x42]" and rest = "[0x00, 0x01, 0x28]" and tag = "0x00"]
    ascii len chars
  show ?thesis
    by simp
qed

subsection \<open>The reading parser\<close>

text \<open>
  Rounding to binary64 on examples: the number nearest to one tenth; a temperature of
  0.125, whose Fahrenheit value 32.225 is a tie in the real numbers and lies above the tie
  in binary64; a literal with a fraction.
\<close>

lemma binary64_examples:
  "binary64 (1 / 10) = Finite (3602879701896397 / 36028797018963968)"
  "fahrenheit (Finite (1 / 8)) = binary64 (3223 / 100)"
  "py_float ''26.5'' = Inr (Finite (53 / 2))"
  by code_simp+

lemma parse_data_caught:
  "parse_data arg = (case parse_data_try arg of Inl e \<Rightarrow> None | Inr x \<Rightarrow> x)"
  by (simp add: parse_data_def split: sum.splits py_error.splits)

lemma raise_bind_Inr: "raise_bind (Inr x) f = f x"
  by (simp add: raise_bind_def)

lemma caught_field:
  "(case raise_bind (item parts i) (\<lambda>part.
       raise_bind (item (py_split CHR '':'' part) j) (\<lambda>text.
       raise_bind (py_float text) f)) of Inl e \<Rightarrow> None | Inr x \<Rightarrow> x) =
   (case field_value parts i j of
      None \<Rightarrow> None
    | Some v \<Rightarrow> (case f v of Inl e \<Rightarrow> None | Inr x \<Rightarrow> x))"
proof (cases "i < length parts \<and> j < length (py_split CHR '':'' (parts ! i))")
  case False
  then show ?thesis
    by (auto simp: raise_bind_def item_def field_value_def)
next
  case True
  then show ?thesis
    by (cases "py_float (py_split CHR '':'' (parts ! i) ! j)")
      (simp_all add: raise_bind_def item_def field_value_def)
qed

lemma parse_data_try_str:
  "startswith s ''DATA:'' \<Longrightarrow> parse_data_try (PyStr s) =
      raise_bind (item (py_split CHR '','' s) 0) (\<lambda>temp_part.
               raise_bind (item (py_split CHR '':'' temp_part) 2) (\<lambda>temp_text.
               raise_bind (py_float temp_text) (\<lambda>temperature.
               raise_bind (item (py_split CHR '','' s) 1) (\<lambda>hum_part.
               raise_bind (item (py_split CHR '':'' hum_part) 1) (\<lambda>hum_text.
               raise_bind (py_float hum_text) (\<lambda>humidity.
               raise_bind (item (py_split CHR '','' s) 2) (\<lambda>ppm_part.
               raise_bind (item (py_split CHR '':'' ppm_part) 1) (\<lambda>ppm_text.
               raise_bind (py_float ppm_text) (\<lambda>ppm.
               Inr (Some (temperature, humidity, ppm)))))))))))"
  unfolding parse_data_try_def Let_def
  by (simp only: raise_bind_Inr data_arg.case not_True_eq_False if_False)

lemma parse_data_str:
  "parse_data (PyStr s) =
     (if startswith s ''DATA:'' then
        (case field_value (py_split CHR '','' s) 0 2 of
           None \<Rightarrow> None
         | Some t \<Rightarrow>
             (case field_value (py_split CHR '','' s) 1 1 of
                None \<Rightarrow> None
              | Some h \<Rightarrow>
                  (case field_value (py_split CHR '','' s) 2 1 of
                     None \<Rightarrow> None
                   | Some p \<Rightarrow> Some (t, h, p))))
      else None)"
proof (cases "startswith s ''DATA:''")
  case False
  then have "parse_data_try (PyStr s) = Inr None"
    by (simp add: parse_data_try_def raise_bind_Inr)
  with False show ?thesis
    by (simp add: parse_data_caught)
next
  case True
  show ?thesis
    unfolding parse_data_caught parse_data_try_str [OF True] caught_field
    using True by (simp split: option.splits)
qed

lemma parse_data_bytearray:
  "parse_data (PyByteArray b) =
     (case decode_utf8 b of None \<Rightarrow> None | Some s \<Rightarrow> parse_data (PyStr s))"
proof (cases "decode_utf8 b")
  case None
  then show ?thesis
    by (simp add: parse_data_caught parse_data_try_def raise_bind_def)
next
  case (Some s)
  then have "parse_data_try (PyByteArray b) = parse_data_try (PyStr s)"
    by (simp add: parse_data_try_def)
  with Some show ?thesis
    by (simp add: parse_data_caught)
qed

text \<open>
  Claim C5, as stated, fails. The string of the claim, with the last two fields swapped, is
  parsed by position: the value after \<^verbatim>\<open>PPM:\<close> becomes the humidity and the value after
  \<^verbatim>\<open>HUM:\<close> the CO2 reading. A first field with another label is accepted as well.
\<close>

theorem swapped_fields_are_parsed:
  "\<not> spec_labels ''DATA:TEMP:26,PPM:1,HUM:28''
   \<and> parse_data (PyStr ''DATA:TEMP:26,PPM:1,HUM:28'') = Some (Finite 26, Finite 1, Finite 28)
   \<and> \<not> spec_labels ''DATA:CO2:26,HUM:28,PPM:1''
   \<and> parse_data (PyStr ''DATA:CO2:26,HUM:28,PPM:1'') = Some (Finite 26, Finite 28, Finite 1)"
  by code_simp

text \<open>
  Claim C5, amended. \<^verbatim>\<open>parse_data\<close> looks at positions only. On a string it returns a
  reading exactly when the string starts with \<^verbatim>\<open>DATA:\<close> and \<^verbatim>\<open>float()\<close> accepts the third
  colon-separated part of the first comma-separated field and the second colon-separated
  part of the second and of the third field; the reading holds these three values in this
  order, whatever the labels before them. When the prefix, a field, a part or a number is
  missing it returns \<open>None\<close>. A \<^verbatim>\<open>bytearray\<close> is decoded first, and one that is not UTF-8
  gives \<open>None\<close>. Every exception of the body is an \<^verbatim>\<open>IndexError\<close> or a \<^verbatim>\<open>ValueError\<close>, and
  both are caught: the result is always a value.
\<close>

theorem parse_data_by_position:
  "parse_data (PyStr s) =
     (if startswith s ''DATA:'' then
        (case field_value (py_split CHR '','' s) 0 2 of
           None \<Rightarrow> None
         | Some t \<Rightarrow>
             (case field_value (py_split CHR '','' s) 1 1 of
                None \<Rightarrow> None
              | Some h \<Rightarrow>
                  (case field_value (py_split CHR '','' s) 2 1 of
                     None \<Rightarrow> None
                   | Some p \<Rightarrow> Some (t, h, p))))
      else None)
   \<and> parse_data (PyByteArray b) =
     (case decode_utf8 b of None \<Rightarrow> None | Some s' \<Rightarrow> parse_data (PyStr s'))
   \<and> parse_data arg = (case parse_data_try arg of Inl e \<Rightarrow> None | Inr r \<Rightarrow> r)"
  using parse_data_str [of s] parse_data_bytearray [of b] parse_data_caught [of arg]
  by (simp only: simp_thms)

subsection \<open>De-duplication\<close>

lemma frames_of_created [simp]:
  "frames_of (self\<lparr>last_frames := Some (frames_of self)\<rparr>) = frames_of self"
  by (simp add: frames_of_def)

lemma is_duplicate_multi_created [simp]:
  "is_duplicate_multi (self\<lparr>last_frames := Some (frames_of self)\<rparr>) = is_duplicate_multi self"
  by (simp add: is_duplicate_multi_def fun_eq_iff)

lemma frames_of_last_frames [simp]:
  "frames_of (self\<lparr>last_frames := Some d\<rparr>) = d"
  by (simp add: frames_of_def)

lemma frames_of_other_fields [simp]:
  "frames_of (self\<lparr>node_data := nd\<rparr>) = frames_of self"
  "frames_of (self\<lparr>data_queue := q\<rparr>) = frames_of self"
  by (simp_all add: frames_of_def)

lemma frames_of_callback_multi:
  "frames_of (data_received_callback_multi self m t) =
     (if is_duplicate_multi self (clean_sender (remote_device m)) (data m) t then frames_of self
      else ((fst (frames_of self))(clean_sender (remote_device m) \<mapsto> data m),
            (snd (frames_of self))(clean_sender (remote_device m) \<mapsto> t)))"
  by (simp add: data_received_callback_multi_def Let_def split: option.splits prod.splits)

lemma last_accepted_from_alt:
  "last_accepted_from sender acc =
     (if filter (\<lambda>(m, t). clean_sender (remote_device m) = sender) acc = [] then None
      else Some (last (filter (\<lambda>(m, t). clean_sender (remote_device m) = sender) acc)))"
  by (simp add: last_accepted_from_def split: list.splits)

lemma last_accepted_from_snoc:
  "last_accepted_from sender (acc @ [(m, t)]) =
     (if clean_sender (remote_device m) = sender then Some (m, t) else last_accepted_from sender acc)"
  by (simp add: last_accepted_from_alt)

lemma slots_match_step:
  assumes "slots_match self acc"
  shows "slots_match (data_received_callback_multi self m t)
     (if is_duplicate_multi self (clean_sender (remote_device m)) (data m) t then acc
      else acc @ [(m, t)])"
  using assms
  by (auto simp: slots_match_def frames_of_callback_multi last_accepted_from_snoc)

lemma accepted_of_Nil [simp]: "accepted_of self [] = []"
  by (simp add: accepted_of_def)

lemma accepted_of_Cons:
  "accepted_of self ((m, t) # rest) =
     (if is_duplicate_multi self (clean_sender (remote_device m)) (data m) t then []
      else [(m, t)]) @ accepted_of (data_received_callback_multi self m t) rest"
  by (simp add: accepted_of_def Let_def split: prod.splits)

lemma fst_deliver_Cons:
  "fst (deliver self ((m, t) # rest)) = fst (deliver (data_received_callback_multi self m t) rest)"
  by (simp add: Let_def split: prod.splits)

lemma slots_match_deliver:
  "slots_match self acc \<Longrightarrow> slots_match (fst (deliver self ms)) (acc @ accepted_of self ms)"
proof (induction ms arbitrary: self acc)
  case Nil
  then show ?case by simp
next
  case (Cons x ms)
  obtain m t where x: "x = (m, t)"
    by (cases x)
  let ?dup = "is_duplicate_multi self (clean_sender (remote_device m)) (data m) t"
  let ?acc = "if ?dup then acc else acc @ [(m, t)]"
  have "slots_match (data_received_callback_multi self m t) ?acc"
    using Cons.prems by (rule slots_match_step)
  then have "slots_match (fst (deliver (data_received_callback_multi self m t) ms))
      (?acc @ accepted_of (data_received_callback_multi self m t) ms)"
    by (rule Cons.IH)
  then show ?case
    unfolding x fst_deliver_Cons accepted_of_Cons
    by (simp split: if_splits)
qed

lemma slots_match_fresh: "last_frames self = None \<Longrightarrow> slots_match self []"
  by (simp add: slots_match_def frames_of_def last_accepted_from_def)

lemma is_duplicate_multi_slots:
  "slots_match self acc \<Longrightarrow>
   is_duplicate_multi self sender payload t \<longleftrightarrow>
     (case last_accepted_from sender acc of
        None \<Rightarrow> False
      | Some (m', t') \<Rightarrow> data m' = payload \<and> t - t' < 1)"
  by (auto simp: slots_match_def is_duplicate_multi_def split: option.splits prod.splits)

lemma deliver_append:
  "deliver self (xs @ ys) =
     (fst (deliver (fst (deliver self xs)) ys), snd (deliver self xs) @ snd (deliver (fst (deliver self xs)) ys))"
  by (induction xs arbitrary: self) (auto simp: Let_def split: prod.splits)

lemma deliver_one:
  "deliver self [(m, t)] =
     (data_received_callback_multi self m t,
      [\<not> is_duplicate_multi self (clean_sender (remote_device m)) (data m) t])"
  by simp

lemma stream_Suc: "stream m p (Suc n) = stream m p n @ [(m, p * real n)]"
  by (simp add: stream_def)

lemma is_duplicate_multi_slot:
  "fst (frames_of self) sender = Some payload \<Longrightarrow> snd (frames_of self) sender = Some t0 \<Longrightarrow>
   is_duplicate_multi self sender payload' t \<longleftrightarrow> payload = payload' \<and> t - t0 < 1"
  by (simp add: is_duplicate_multi_def)

lemma is_duplicate_multi_empty:
  "fst (frames_of self) sender = None \<Longrightarrow> \<not> is_duplicate_multi self sender payload t"
  by (simp add: is_duplicate_multi_def)

lemma stream_run:
  assumes fresh: "last_frames self = None"
  shows "snd (deliver self (stream m (9 / 10) n)) = map even [0..<n]
    \<and> (if n = 0 then frames_of (fst (deliver self (stream m (9 / 10) n))) = (Map.empty, Map.empty)
       else fst (frames_of (fst (deliver self (stream m (9 / 10) n)))) (clean_sender (remote_device m))
              = Some (data m)
          \<and> snd (frames_of (fst (deliver self (stream m (9 / 10) n)))) (clean_sender (remote_device m))
              = Some (9 / 10 * real (2 * ((n - 1) div 2))))"
proof (induction n)
  case 0
  show ?case
    using fresh by (simp add: stream_def frames_of_def)
next
  case (Suc n)
  let ?s = "fst (deliver self (stream m (9 / 10) n))"
  let ?sender = "clean_sender (remote_device m)"
  let ?t = "9 / 10 * real n"
  have run: "deliver self (stream m (9 / 10) (Suc n)) =
      (data_received_callback_multi ?s m ?t,
       map even [0..<n] @ [\<not> is_duplicate_multi ?s ?sender (data m) ?t])"
    using Suc.IH by (simp add: stream_Suc deliver_append deliver_one)
  show ?case
  proof (cases "n = 0")
    case True
    with Suc.IH have "\<not> is_duplicate_multi ?s ?sender (data m) ?t"
      by (simp add: is_duplicate_multi_empty)
    with True show ?thesis
      unfolding run by (simp add: frames_of_callback_multi)
  next
    case False
    with Suc.IH have slot: "fst (frames_of ?s) ?sender = Some (data m)"
      "snd (frames_of ?s) ?sender = Some (9 / 10 * real (2 * ((n - 1) div 2)))"
      by simp_all
    have dup: "is_duplicate_multi ?s ?sender (data m) ?t \<longleftrightarrow>
        ?t - 9 / 10 * real (2 * ((n - 1) div 2)) < 1"
      using is_duplicate_multi_slot [OF slot, of "data m" ?t] by simp
    show ?thesis
    proof (cases "even n")
      case True
      then obtain j where j: "n = 2 * j"
        by (auto elim: evenE)
      with False obtain k' where "j = Suc k'"
        by (cases j) auto
      with j have k: "n = 2 * Suc k'"
        by simp
      have "\<not> ?t - 9 / 10 * real (2 * ((n - 1) div 2)) < 1"
        unfolding k by (simp add: algebra_simps)
      with dup have "\<not> is_duplicate_multi ?s ?sender (data m) ?t"
        by blast
      with True show ?thesis
        unfolding run by (simp add: frames_of_callback_multi k)
    next
      case odd: False
      then obtain k where k: "n = Suc (2 * k)"
        by (auto elim!: oddE)
      have "?t - 9 / 10 * real (2 * ((n - 1) div 2)) < 1"
        unfolding k by (simp add: algebra_simps)
      with dup have "is_duplicate_multi ?s ?sender (data m) ?t"
        by blast
      with odd slot show ?thesis
        unfolding run by (simp add: frames_of_callback_multi k)
    qed
  qed
qed

lemma callback_multi_duplicate:
  assumes "is_duplicate_multi self (clean_sender (remote_device m)) (data m) t"
  shows "data_received_callback_multi self m t = self"
proof -
  from assms have "last_frames self \<noteq> None"
    by (cases "last_frames self") (simp_all add: is_duplicate_multi_def frames_of_def)
  then have "self\<lparr>last_frames := Some (frames_of self)\<rparr> = self"
    by (cases "last_frames self") (simp_all add: frames_of_def)
  with assms show ?thesis
    by (simp add: data_received_callback_multi_def Let_def)
qed

lemma callback_single_duplicate:
  "is_duplicate self (data m) t \<Longrightarrow> data_received_callback self m t = self"
  by (simp add: data_received_callback_def Let_def)

lemma last_frame_callback:
  "last_frame (data_received_callback self m t) =
     (if is_duplicate self (data m) t then last_frame self else Some (data m, t))"
  by (simp add: data_received_callback_def Let_def split: option.splits prod.splits)

lemma accepted_single_slot_Nil [simp]: "accepted_single_slot self [] = []"
  by (simp add: accepted_single_slot_def)

lemma accepted_single_slot_Cons:
  "accepted_single_slot self ((m, t) # rest) =
     (if is_duplicate self (data m) t then [] else [(m, t)])
     @ accepted_single_slot (data_received_callback self m t) rest"
  by (simp add: accepted_single_slot_def Let_def split: prod.splits)

lemma fst_deliver_single_slot_Cons:
  "fst (deliver_single_slot self ((m, t) # rest)) =
     fst (deliver_single_slot (data_received_callback self m t) rest)"
  by (simp add: Let_def split: prod.splits)

lemma slot_matches_deliver:
  "slot_matches self acc \<Longrightarrow>
   slot_matches (fst (deliver_single_slot self ms)) (acc @ accepted_single_slot self ms)"
proof (induction ms arbitrary: self acc)
  case Nil
  then show ?case by simp
next
  case (Cons x ms)
  obtain m t where x: "x = (m, t)"
    by (cases x)
  let ?acc = "if is_duplicate self (data m) t then acc else acc @ [(m, t)]"
  have "slot_matches (data_received_callback self m t) ?acc"
    using Cons.prems by (simp add: slot_matches_def last_frame_callback)
  then have "slot_matches (fst (deliver_single_slot (data_received_callback self m t) ms))
      (?acc @ accepted_single_slot (data_received_callback self m t) ms)"
    by (rule Cons.IH)
  then show ?case
    unfolding x fst_deliver_single_slot_Cons accepted_single_slot_Cons
    by (simp split: if_splits)
qed

lemma is_duplicate_slot:
  "slot_matches self acc \<Longrightarrow>
   is_duplicate self payload t \<longleftrightarrow>
     (acc \<noteq> [] \<and> data (fst (last acc)) = payload \<and> t - snd (last acc) < 1)"
  by (auto simp: slot_matches_def is_duplicate_def)

lemma data_queue_callback_multi:
  "data_queue (data_received_callback_multi self m t) =
     (if is_duplicate_multi self (clean_sender (remote_device m)) (data m) t then data_queue self
      else (case parse_data (PyByteArray (data m)) of
              None \<Rightarrow> data_queue self
            | Some (a, b, c) \<Rightarrow>
                map_option (\<lambda>q. q @ [NodeReading (clean_sender (remote_device m)) a b c (fahrenheit a)])
                  (data_queue self)))"
  by (simp add: data_received_callback_multi_def Let_def split: option.splits prod.splits)

lemma two_deliveries:
  assumes fresh: "last_frames self = None" and queue: "data_queue self = Some q"
    and parsed: "parse_data (PyByteArray (data m)) = Some (a, b, c)"
  shows "data_queue (fst (deliver self [(m, t1), (m, t2)])) =
     Some (q @ (if t2 - t1 < 1
                then [NodeReading (clean_sender (remote_device m)) a b c (fahrenheit a)]
                else [NodeReading (clean_sender (remote_device m)) a b c (fahrenheit a),
                      NodeReading (clean_sender (remote_device m)) a b c (fahrenheit a)]))"
proof -
  let ?sender = "clean_sender (remote_device m)"
  let ?s1 = "data_received_callback_multi self m t1"
  have first: "\<not> is_duplicate_multi self ?sender (data m) t1"
    using fresh by (simp add: is_duplicate_multi_def frames_of_def)
  then have q1: "data_queue ?s1 = Some (q @ [NodeReading ?sender a b c (fahrenheit a)])"
    using queue parsed by (simp add: data_queue_callback_multi)
  have "fst (frames_of ?s1) ?sender = Some (data m)" "snd (frames_of ?s1) ?sender = Some t1"
    using first by (simp_all add: frames_of_callback_multi)
  then have second: "is_duplicate_multi ?s1 ?sender (data m) t2 \<longleftrightarrow> t2 - t1 < 1"
    by (simp add: is_duplicate_multi_slot)
  have "fst (deliver self [(m, t1), (m, t2)]) = data_received_callback_multi ?s1 m t2"
    by (simp add: Let_def)
  then show ?thesis
    using q1 second parsed by (simp add: data_queue_callback_multi)
qed

lemma deliver_single_slot_append:
  "deliver_single_slot self (xs @ ys) =
     (fst (deliver_single_slot (fst (deliver_single_slot self xs)) ys),
      snd (deliver_single_slot self xs) @ snd (deliver_single_slot (fst (deliver_single_slot self xs)) ys))"
  by (induction xs arbitrary: self) (auto simp: Let_def split: prod.splits)

lemma stream_run_single_slot:
  assumes fresh: "last_frame self = None"
  shows "snd (deliver_single_slot self (stream m (9 / 10) n)) = map even [0..<n]
    \<and> last_frame (fst (deliver_single_slot self (stream m (9 / 10) n))) =
        (if n = 0 then None else Some (data m, 9 / 10 * real (2 * ((n - 1) div 2))))"
proof (induction n)
  case 0
  show ?case
    using fresh by (simp add: stream_def)
next
  case (Suc n)
  let ?s = "fst (deliver_single_slot self (stream m (9 / 10) n))"
  let ?t = "9 / 10 * real n"
  have run: "deliver_single_slot self (stream m (9 / 10) (Suc n)) =
      (data_received_callback ?s m ?t, map even [0..<n] @ [\<not> is_duplicate ?s (data m) ?t])"
    using Suc.IH by (simp add: stream_Suc deliver_single_slot_append)
  show ?case
  proof (cases "n = 0")
    case True
    with Suc.IH have "\<not> is_duplicate ?s (data m) ?t"
      by (simp add: is_duplicate_def)
    with True show ?thesis
      unfolding run by (simp add: last_frame_callback)
  next
    case False
    with Suc.IH have slot: "last_frame ?s = Some (data m, 9 / 10 * real (2 * ((n - 1) div 2)))"
      by simp
    have dup: "is_duplicate ?s (data m) ?t \<longleftrightarrow>
        ?t - 9 / 10 * real (2 * ((n - 1) div 2)) < 1"
      unfolding is_duplicate_def slot by simp
    show ?thesis
    proof (cases "even n")
      case True
      then obtain j where j: "n = 2 * j"
        by (auto elim: evenE)
      with False obtain k' where "j = Suc k'"
        by (cases j) auto
      with j have k: "n = 2 * Suc k'"
        by simp
      have "\<not> ?t - 9 / 10 * real (2 * ((n - 1) div 2)) < 1"
        unfolding k by (simp add: algebra_simps)
      with dup have "\<not> is_duplicate ?s (data m) ?t"
        by blast
      with True show ?thesis
        unfolding run by (simp add: last_frame_callback k)
    next
      case odd: False
      then obtain k where k: "n = Suc (2 * k)"
        by (auto elim!: oddE)
      have "?t - 9 / 10 * real (2 * ((n - 1) div 2)) < 1"
        unfolding k by (simp add: algebra_simps)
      with dup have "is_duplicate ?s (data m) ?t"
        by blast
      with odd slot show ?thesis
        unfolding run by (simp add: last_frame_callback k)
    qed
  qed
qed

lemma data_queue_callback:
  "data_queue (data_received_callback self m t) =
     (if is_duplicate self (data m) t then data_queue self
      else (case parse_data (PyByteArray (data m)) of
              None \<Rightarrow> data_queue self
            | Some (a, b, c) \<Rightarrow>
                map_option (\<lambda>q. q @ [Reading a b c (fahrenheit a)]) (data_queue self)))"
  by (simp add: data_received_callback_def Let_def parse_data_bytearray
      split: option.splits prod.splits)

lemma two_deliveries_single_slot:
  assumes fresh: "last_frame self = None" and queue: "data_queue self = Some q"
    and parsed: "parse_data (PyByteArray (data m)) = Some (a, b, c)"
  shows "data_queue (fst (deliver_single_slot self [(m, t1), (m, t2)])) =
     Some (q @ (if t2 - t1 < 1
                then [Reading a b c (fahrenheit a)]
                else [Reading a b c (fahrenheit a), Reading a b c (fahrenheit a)]))"
proof -
  let ?s1 = "data_received_callback self m t1"
  have first: "\<not> is_duplicate self (data m) t1"
    using fresh by (simp add: is_duplicate_def)
  then have q1: "data_queue ?s1 = Some (q @ [Reading a b c (fahrenheit a)])"
    using queue parsed by (simp add: data_queue_callback)
  have "last_frame ?s1 = Some (data m, t1)"
    using first by (simp add: last_frame_callback)
  then have second: "is_duplicate ?s1 (data m) t2 \<longleftrightarrow> t2 - t1 < 1"
    by (simp add: is_duplicate_def)
  have "fst (deliver_single_slot self [(m, t1), (m, t2)]) = data_received_callback ?s1 m t2"
    by (simp add: Let_def)
  then show ?thesis
    using q1 second parsed by (simp add: data_queue_callback)
qed

text \<open>
  Claim C4, as stated, fails for \<^verbatim>\<open>_data_received_callback\<close>, the callback that \<^verbatim>\<open>open()\<close>
  registers: its one slot is shared by all senders. A message is suppressed when the same
  bytes came from another sender 0.2 seconds before, although its own sender has sent
  nothing; and a repeat of a sender's message after 0.2 seconds is accepted when a message
  of another sender came between the two, so that two deliveries of the same bytes from one
  sender within a second put two readings of that sender into the queue.
  \<^verbatim>\<open>_data_received_callback_multi\<close> accepts the first and suppresses the second.
\<close>

theorem single_slot_ignores_sender:
  "clean_sender (remote_device other_node_message) \<noteq> clean_sender (remote_device sample_message)
   \<and> data other_node_message = data sample_message
   \<and> snd (deliver_single_slot receiver_started
        [(sample_message, 0), (other_node_message, 1 / 5)]) = [True, False]
   \<and> snd (deliver receiver_started
        [(sample_message, 0), (other_node_message, 1 / 5)]) = [True, True]
   \<and> snd (deliver_single_slot receiver_started
        [(sample_message, 0), (other_reading_message, 1 / 10), (sample_message, 1 / 5)])
      = [True, True, True]
   \<and> data_queue (fst (deliver_single_slot receiver_started
        [(sample_message, 0), (other_reading_message, 1 / 10), (sample_message, 1 / 5)]))
      = Some [Reading (Finite 26) (Finite 28) (Finite 400) (fahrenheit (Finite 26)),
              Reading (Finite 27) (Finite 28) (Finite 400) (fahrenheit (Finite 27)),
              Reading (Finite 26) (Finite 28) (Finite 400) (fahrenheit (Finite 26))]
   \<and> snd (deliver receiver_started
        [(sample_message, 0), (other_reading_message, 1 / 10), (sample_message, 1 / 5)])
      = [True, True, False]"
  by code_simp

text \<open>
  Claim C4, amended. Run the per-sender callback \<^verbatim>\<open>_data_received_callback_multi\<close> from a
  receiver that has seen nothing over any deliveries \<open>ms\<close>. A further message \<open>m\<close> arriving at
  time \<open>t\<close> is suppressed if and only if the most recent accepted delivery from the sender of
  \<open>m\<close> exists, has the same bytes, and \<open>t\<close> is less than 1.0 after its arrival; the sender is
  the text of the remote address without its characters that are not letters or digits, in
  upper case. The single-slot callback \<^verbatim>\<open>_data_received_callback\<close>, the one that is
  registered, keeps one slot for all senders: it suppresses \<open>m\<close> if and only if the most
  recent accepted delivery of the receiver, from whichever sender, exists, has the same
  bytes, and \<open>t\<close> is less than 1.0 after its arrival. With either callback, two deliveries
  of one parseable message with nothing between them put one reading into the queue when
  they are less than a second apart, and two otherwise, also when they are exactly one
  second apart.
\<close>

theorem suppressed_iff_repeat_within_second:
  "(last_frames self = None \<longrightarrow>
      (is_duplicate_multi (fst (deliver self ms)) (clean_sender (remote_device m)) (data m) t \<longleftrightarrow>
        (case last_accepted_from (clean_sender (remote_device m)) (accepted_of self ms) of
           None \<Rightarrow> False
         | Some (m', t') \<Rightarrow> data m' = data m \<and> t - t' < 1)))
   \<and> (last_frames self = None \<and> data_queue self = Some q
        \<and> parse_data (PyByteArray (data m)) = Some (a, b, c) \<longrightarrow>
      data_queue (fst (deliver self [(m, t1), (m, t2)])) =
        Some (q @ (if t2 - t1 < 1
                   then [NodeReading (clean_sender (remote_device m)) a b c (fahrenheit a)]
                   else [NodeReading (clean_sender (remote_device m)) a b c (fahrenheit a),
                         NodeReading (clean_sender (remote_device m)) a b c (fahrenheit a)])))
   \<and> (last_frame self = None \<longrightarrow>
      (is_duplicate (fst (deliver_single_slot self ms)) (data m) t \<longleftrightarrow>
        accepted_single_slot self ms \<noteq> []
        \<and> data (fst (last (accepted_single_slot self ms))) = data m
        \<and> t - snd (last (accepted_single_slot self ms)) < 1))
   \<and> (last_frame self = None \<and> data_queue self = Some q
        \<and> parse_data (PyByteArray (data m)) = Some (a, b, c) \<longrightarrow>
      data_queue (fst (deliver_single_slot self [(m, t1), (m, t2)])) =
        Some (q @ (if t2 - t1 < 1
                   then [Reading a b c (fahrenheit a)]
                   else [Reading a b c (fahrenheit a), Reading a b c (fahrenheit a)])))"
proof (intro conjI impI)
  assume fresh: "last_frames self = None"
  from slots_match_deliver [OF slots_match_fresh [OF fresh], of ms]
  have "slots_match (fst (deliver self ms)) (accepted_of self ms)"
    by simp
  then show "is_duplicate_multi (fst (deliver self ms)) (clean_sender (remote_device m)) (data m) t \<longleftrightarrow>
        (case last_accepted_from (clean_sender (remote_device m)) (accepted_of self ms) of
           None \<Rightarrow> False
         | Some (m', t') \<Rightarrow> data m' = data m \<and> t - t' < 1)"
    by (rule is_duplicate_multi_slots)
next
  assume "last_frames self = None \<and> data_queue self = Some q
        \<and> parse_data (PyByteArray (data m)) = Some (a, b, c)"
  then show "data_queue (fst (deliver self [(m, t1), (m, t2)])) =
        Some (q @ (if t2 - t1 < 1
                   then [NodeReading (clean_sender (remote_device m)) a b c (fahrenheit a)]
                   else [NodeReading (clean_sender (remote_device m)) a b c (fahrenheit a),
                         NodeReading (clean_sender (remote_device m)) a b c (fahrenheit a)]))"
    by (intro two_deliveries) simp_all
next
  assume fresh: "last_frame self = None"
  then have "slot_matches self []"
    by (simp add: slot_matches_def)
  from slot_matches_deliver [OF this, of ms]
  have "slot_matches (fst (deliver_single_slot self ms)) (accepted_single_slot self ms)"
    by simp
  then show "is_duplicate (fst (deliver_single_slot self ms)) (data m) t \<longleftrightarrow>
        accepted_single_slot self ms \<noteq> []
        \<and> data (fst (last (accepted_single_slot self ms))) = data m
        \<and> t - snd (last (accepted_single_slot self ms)) < 1"
    by (rule is_duplicate_slot)
next
  assume "last_frame self = None \<and> data_queue self = Some q
        \<and> parse_data (PyByteArray (data m)) = Some (a, b, c)"
  then show "data_queue (fst (deliver_single_slot self [(m, t1), (m, t2)])) =
        Some (q @ (if t2 - t1 < 1
                   then [Reading a b c (fahrenheit a)]
                   else [Reading a b c (fahrenheit a), Reading a b c (fahrenheit a)]))"
    by (intro two_deliveries_single_slot) simp_all
qed

lemma receiver_started_fresh:
  "last_frames receiver_started = None" "last_frame receiver_started = None"
  "data_queue receiver_started = Some []"
  by (simp_all add: receiver_started_def receiver_init_def)

lemma sample_message_parsed:
  "parse_data (PyByteArray (data sample_message)) = Some (Finite 26, Finite 28, Finite 400)"
  by code_simp

lemma sample_message_accepted:
  "last_accepted_from (clean_sender (remote_device sample_message))
     (accepted_of receiver_started [(sample_message, 0)]) = Some (sample_message, 0)"
  by code_simp

lemma sample_message_accepted_single_slot:
  "accepted_single_slot receiver_started [(sample_message, 0)] = [(sample_message, 0)]"
  by code_simp

theorem suppressed_iff_repeat_within_second_witness:
  "is_duplicate_multi (fst (deliver receiver_started [(sample_message, 0)]))
      (clean_sender (remote_device sample_message)) (data sample_message) (1 / 2)
   \<and> \<not> is_duplicate_multi (fst (deliver receiver_started [(sample_message, 0)]))
      (clean_sender (remote_device sample_message)) (data sample_message) 1
   \<and> data_queue (fst (deliver receiver_started [(sample_message, 0), (sample_message, 1 / 2)])) =
      Some [NodeReading (clean_sender (remote_device sample_message))
              (Finite 26) (Finite 28) (Finite 400) (fahrenheit (Finite 26))]
   \<and> data_queue (fst (deliver receiver_started [(sample_message, 0), (sample_message, 3 / 2)])) =
      Some [NodeReading (clean_sender (remote_device sample_message))
              (Finite 26) (Finite 28) (Finite 400) (fahrenheit (Finite 26)),
            NodeReading (clean_sender (remote_device sample_message))
              (Finite 26) (Finite 28) (Finite 400) (fahrenheit (Finite 26))]
   \<and> is_duplicate (fst (deliver_single_slot receiver_started [(sample_message, 0)]))
      (data sample_message) (1 / 2)
   \<and> \<not> is_duplicate (fst (deliver_single_slot receiver_started [(sample_message, 0)]))
      (data sample_message) 1
   \<and> data_queue (fst (deliver_single_slot receiver_started
        [(sample_message, 0), (sample_message, 1 / 2)])) =
      Some [Reading (Finite 26) (Finite 28) (Finite 400) (fahrenheit (Finite 26))]
   \<and> data_queue (fst (deliver_single_slot receiver_started
        [(sample_message, 0), (sample_message, 1)])) =
      Some [Reading (Finite 26) (Finite 28) (Finite 400) (fahrenheit (Finite 26)),
            Reading (Finite 26) (Finite 28) (Finite 400) (fahrenheit (Finite 26))]"
  using
    suppressed_iff_repeat_within_second
      [where self = receiver_started and ms = "[(sample_message, 0)]" and m = sample_message
        and t = "1 / 2" and q = "[]" and a = "Finite 26" and b = "Finite 28" and c = "Finite 400"
        and ?t1.0 = 0 and ?t2.0 = "1 / 2"]
    suppressed_iff_repeat_within_second
      [where self = receiver_started and ms = "[(sample_message, 0)]" and m = sample_message
        and t = 1 and q = "[]" and a = "Finite 26" and b = "Finite 28" and c = "Finite 400"
        and ?t1.0 = 0 and ?t2.0 = "3 / 2"]
    suppressed_iff_repeat_within_second
      [where self = receiver_started and ms = "[(sample_message, 0)]" and m = sample_message
        and t = 1 and q = "[]" and a = "Finite 26" and b = "Finite 28" and c = "Finite 400"
        and ?t1.0 = 0 and ?t2.0 = 1]
    receiver_started_fresh sample_message_parsed sample_message_accepted
    sample_message_accepted_single_slot
  by simp

text \<open>
  Claim C10. A call that the duplicate test ends leaves the receiver, and with it the
  stored bytes and time stamp, exactly as it was, in both callbacks. So the window is
  measured from the last accepted message: of the same message delivered every 0.9
  seconds to a receiver that has seen nothing, the deliveries number 0, 2, 4, ... are accepted
  and the ones between them suppressed, that is one accepted delivery every 1.8 seconds.
\<close>

theorem suppression_keeps_slot:
  "(is_duplicate_multi self (clean_sender (remote_device m)) (data m) t \<longrightarrow>
      data_received_callback_multi self m t = self)
   \<and> (is_duplicate self (data m) t \<longrightarrow> data_received_callback self m t = self)
   \<and> (last_frames self = None \<longrightarrow> snd (deliver self (stream m (9 / 10) n)) = map even [0..<n])
   \<and> (last_frame self = None \<longrightarrow>
        snd (deliver_single_slot self (stream m (9 / 10) n)) = map even [0..<n])"
  using callback_multi_duplicate [of self m t] callback_single_duplicate [of self m t]
    stream_run [of self m n] stream_run_single_slot [of self m n]
  by blast

lemma sample_message_repeated:
  "is_duplicate_multi (fst (deliver receiver_started [(sample_message, 0)]))
     (clean_sender (remote_device sample_message)) (data sample_message) (9 / 10)"
  by code_simp

theorem suppression_keeps_slot_witness:
  "data_received_callback_multi (fst (deliver receiver_started [(sample_message, 0)]))
      sample_message (9 / 10) = fst (deliver receiver_started [(sample_message, 0)])
   \<and> snd (deliver receiver_started (stream sample_message (9 / 10) 5))
      = [True, False, True, False, True]
   \<and> snd (deliver_single_slot receiver_started (stream sample_message (9 / 10) 5))
      = [True, False, True, False, True]"
proof -
  have flags: "map even [0..<5] = [True, False, True, False, True]"
    by code_simp
  from suppression_keeps_slot
      [of "fst (deliver receiver_started [(sample_message, 0)])" sample_message "9 / 10" 5]
    suppression_keeps_slot [of receiver_started sample_message 0 5]
    sample_message_repeated receiver_started_fresh flags
  show ?thesis
    by simp
qed

end
